theory Spec2Isabelle
  imports Complex_Main "HOL-Library.Log_Nat"
begin

section \<open>Numeric columns\<close>

text \<open>
  The pipeline of \<^verbatim>\<open>generate_hex_score_map.py\<close> works on pandas columns of floats in
  which a missing entry is NaN. A cell is modelled as \<open>real option\<close>: \<open>None\<close> is the
  missing entry (NaN, or a column the frame does not have, which \<^verbatim>\<open>row.get\<close> reads as
  null), \<open>Some x\<close> a number. Arithmetic is the arithmetic of the reals: the rounding
  and the overflow of IEEE doubles, and the NaN they can produce where exact arithmetic
  gives a number, are not modelled. What is proved of computed numbers below holds in exact
  arithmetic; the claims settled on the program are those whose statements do not depend
  on such numbers.
\<close>

type_synonym num = "real option"

text \<open>An arithmetic operation on two cells: missing as soon as one operand is.\<close>

fun lift2 :: "(real \<Rightarrow> real \<Rightarrow> real) \<Rightarrow> num \<Rightarrow> num \<Rightarrow> num" where
  "lift2 f (Some x) (Some y) = Some (f x y)"
| "lift2 f _ _ = None"

definition nadd :: "num \<Rightarrow> num \<Rightarrow> num" where
  "nadd a b = lift2 (\<lambda>x y. x + y) a b"

definition nsub :: "num \<Rightarrow> num \<Rightarrow> num" where
  "nsub a b = lift2 (\<lambda>x y. x - y) a b"

definition nmul :: "num \<Rightarrow> num \<Rightarrow> num" where
  "nmul a b = lift2 (\<lambda>x y. x * y) a b"

definition ndiv :: "num \<Rightarrow> num \<Rightarrow> num" where
  "ndiv a b = lift2 (\<lambda>x y. x / y) a b"

text \<open>\<^verbatim>\<open>a > b\<close> on floats: false as soon as one side is NaN.\<close>

fun ngt :: "num \<Rightarrow> num \<Rightarrow> bool" where
  "ngt (Some x) (Some y) = (y < x)"
| "ngt _ _ = False"

text \<open>\<^verbatim>\<open>fillna(v)\<close> on one cell.\<close>

fun fillna :: "real \<Rightarrow> num \<Rightarrow> num" where
  "fillna v None = Some v"
| "fillna v (Some x) = Some x"

text \<open>The non-missing entries of a column, in order.\<close>

fun dropna :: "num list \<Rightarrow> real list" where
  "dropna [] = []"
| "dropna (None # xs) = dropna xs"
| "dropna (Some x # xs) = x # dropna xs"

section \<open>Percentile-clamped min-max normalisation\<close>

text \<open>
  \<^verbatim>\<open>Series.quantile(q)\<close> with the default linear interpolation: missing entries are
  skipped, the rest is sorted, the position \<open>q * (n - 1)\<close> is split into its integer
  and fractional part and the two neighbouring order statistics are interpolated
  (the upper index is clamped to the last one). An empty or all-missing column gives NaN.
\<close>

definition quantile :: "num list \<Rightarrow> real \<Rightarrow> num" where
  "quantile series q =
     (let vs = sort (dropna series); n = length vs in
      if n = 0 then None
      else
        let pos = q * real (n - 1);
            i = nat \<lfloor>pos\<rfloor>;
            j = min (i + 1) (n - 1);
            frac = pos - real i
        in Some (vs ! i + (vs ! j - vs ! i) * frac))"

text \<open>
  \<^verbatim>\<open>Series.clip(lo, hi)\<close> on one cell: a missing cell stays missing, a NaN bound does not
  clip, and two scalar bounds are put in order first, as pandas does
  (\<^verbatim>\<open>lower, upper = min(lower, upper), max(lower, upper)\<close>).
\<close>

fun clip :: "num \<Rightarrow> num \<Rightarrow> num \<Rightarrow> num" where
  "clip None lo hi = None"
| "clip (Some x) (Some l) (Some h) = Some (min (max x (min l h)) (max l h))"
| "clip (Some x) (Some l) None = Some (max x l)"
| "clip (Some x) None (Some h) = Some (min x h)"
| "clip (Some x) None None = Some x"

text \<open>\<^verbatim>\<open>rng = hi - lo if hi > lo else 1\<close>\<close>

definition rng_of :: "num \<Rightarrow> num \<Rightarrow> num" where
  "rng_of lo hi = (if ngt hi lo then nsub hi lo else Some 1)"

definition minmax_clamped :: "num list \<Rightarrow> real \<Rightarrow> real \<Rightarrow> num list" where
  "minmax_clamped series lower_q upper_q =
     (let lo = quantile series lower_q;
          hi = quantile series upper_q;
          rng = rng_of lo hi
      in map (\<lambda>x. fillna (1/2) (ndiv (nsub (clip x lo hi) lo) rng)) series)"

section \<open>Tables\<close>

text \<open>
  A row of \<^verbatim>\<open>datacenter_scores_real.csv\<close>: a region with its centroid and its two
  baseline scores.
\<close>

record score_row =
  region_name :: string
  region_lat :: real
  region_lon :: real
  region_sustainability :: num
  region_profitability :: num

text \<open>A row of \<^verbatim>\<open>hex_weather_data_all.csv\<close>.\<close>

record climate_row =
  hex_id :: int
  local_temp_c :: num
  elevation_m :: num

text \<open>
  A row of the hex frame as it travels through the pipeline. The frame gains columns
  stage by stage; a column the frame does not have yet is \<open>None\<close> in every row.
\<close>

record hex_row = climate_row +
  lat :: num
  lon :: num
  region :: "string option"
  dist_to_region_m :: num
  sustainability :: num
  profitability :: num
  temp_norm :: num
  temp_cool_score :: num
  elev_norm :: num
  sustainability_hex :: num
  profitability_hex :: num
  dc_score_hex :: num
  dc_score_hex_smooth :: num

text \<open>The exceptions of pandas, numpy and Python that the pipeline lets escape.\<close>

datatype error = KeyError string | ValueError string | AttributeError string

section \<open>Great-circle distance\<close>

definition radians :: "real \<Rightarrow> real" where
  "radians d = d * pi / 180"

text \<open>\<^verbatim>\<open>np.arctan2(y, x)\<close>: the angle of the point \<open>(x, y)\<close>, in \<open>(-pi, pi]\<close>.\<close>

definition arctan2 :: "real \<Rightarrow> real \<Rightarrow> real" where
  "arctan2 y x =
     (if 0 < x then arctan (y / x)
      else if x < 0 then (if 0 \<le> y then arctan (y / x) + pi else arctan (y / x) - pi)
      else if 0 < y then pi / 2
      else if y < 0 then - (pi / 2)
      else 0)"

text \<open>
  \<^verbatim>\<open>haversine_vec(lat, lon, region_mat)\<close> of \<^verbatim>\<open>assign_region_if_missing\<close>: the distance in
  metres from one point to every region centroid, in the order of the region table. Over
  the reals \<open>a\<close> lies in \<open>[0, 1]\<close>; the source does not clamp it, and in doubles it can
  exceed \<open>1\<close> by rounding (at antipodal points), which makes the distance NaN.
\<close>

definition haversine_vec :: "real \<Rightarrow> real \<Rightarrow> score_row list \<Rightarrow> real list" where
  "haversine_vec la lo region_mat =
     map (\<lambda>r.
       let phi1 = radians la;
           phi2 = radians (region_lat r);
           dphi = radians (region_lat r - la);
           dlambda = radians (region_lon r - lo);
           a = (sin (dphi / 2))\<^sup>2 + cos phi1 * cos phi2 * (sin (dlambda / 2))\<^sup>2;
           c = 2 * arctan2 (sqrt a) (sqrt (1 - a))
       in 6371000 * c) region_mat"

text \<open>
  The haversine formula as the textbooks state it, with the Earth radius of the spec:
  \<open>2 R arcsin (sqrt (sin\<^sup>2 (\<Delta>\<phi> / 2) + cos \<phi>\<^sub>1 cos \<phi>\<^sub>2 sin\<^sup>2 (\<Delta>\<lambda> / 2)))\<close>. It is not
  part of the program: the two distance computations of the program are compared with
  it below.
\<close>

definition haversine_formula :: "real \<Rightarrow> real \<Rightarrow> real \<Rightarrow> real \<Rightarrow> real" where
  "haversine_formula la1 lo1 la2 lo2 =
     2 * 6371000 *
       arcsin (sqrt ((sin ((radians la2 - radians la1) / 2))\<^sup>2
          + cos (radians la1) * cos (radians la2) * (sin ((radians lo2 - radians lo1) / 2))\<^sup>2))"

section \<open>Region assignment\<close>

text \<open>
  \<^verbatim>\<open>np.argmin\<close>: the index of the first minimum; an empty array raises ValueError.
\<close>

fun argmin_from :: "real list \<Rightarrow> nat \<Rightarrow> nat \<Rightarrow> real \<Rightarrow> nat" where
  "argmin_from [] i best bv = best"
| "argmin_from (x # xs) i best bv =
     (if x < bv then argmin_from xs (i + 1) i x else argmin_from xs (i + 1) best bv)"

definition argmin :: "real list \<Rightarrow> error + nat" where
  "argmin xs =
     (case xs of
        [] \<Rightarrow> Inl (ValueError ''attempt to get argmin of an empty sequence'')
      | x # rest \<Rightarrow> Inr (argmin_from rest 1 0 x))"

text \<open>
  The loop of \<^verbatim>\<open>assign_region_if_missing\<close> over the rows: for each row the pair appended
  to \<^verbatim>\<open>regions\<close> and \<^verbatim>\<open>dists\<close>. A row without coordinates appends its own region and
  NaN; every other row appends the nearest region and its distance.
\<close>

fun assign_loop :: "hex_row list \<Rightarrow> score_row list \<Rightarrow> error + (string option \<times> num) list" where
  "assign_loop [] regions_np = Inr []"
| "assign_loop (row # rows) regions_np =
     (case (lat row, lon row) of
        (Some la, Some lo) \<Rightarrow>
          (let dist_arr = haversine_vec la lo regions_np in
           case argmin dist_arr of
             Inl e \<Rightarrow> Inl e
           | Inr idx \<Rightarrow>
               (case assign_loop rows regions_np of
                  Inl e \<Rightarrow> Inl e
                | Inr rest \<Rightarrow>
                    Inr ((Some (region_name (regions_np ! idx)), Some (dist_arr ! idx)) # rest)))
      | _ \<Rightarrow>
          (case assign_loop rows regions_np of
             Inl e \<Rightarrow> Inl e
           | Inr rest \<Rightarrow> Inr ((region row, None) # rest)))"

text \<open>\<^verbatim>\<open>hex_df["region"].fillna(regions)\<close> and \<^verbatim>\<open>hex_df["dist_to_region_m"] = dists\<close> on one row.\<close>

definition fill_region :: "hex_row \<Rightarrow> string option \<times> num \<Rightarrow> hex_row" where
  "fill_region row rd =
     row\<lparr>region := (case region row of None \<Rightarrow> fst rd | Some r \<Rightarrow> Some r),
         dist_to_region_m := snd rd\<rparr>"

definition assign_region_if_missing :: "hex_row list \<Rightarrow> score_row list \<Rightarrow> error + hex_row list" where
  "assign_region_if_missing hex_df scores_df =
     (if list_all (\<lambda>row. region row \<noteq> None) hex_df then Inr hex_df
      else
        (case assign_loop hex_df scores_df of
           Inl e \<Rightarrow> Inl e
         | Inr rds \<Rightarrow> Inr (map2 fill_region hex_df rds)))"

section \<open>Scoring and spatial smoothing\<close>

text \<open>
  The left join of \<^verbatim>\<open>main\<close>, \<^verbatim>\<open>hex_df.merge(scores_df, on="region", how="left")\<close>: every
  hex row once per region row of the same name, in the order of the region table, and
  once with missing scores when no region matches (a missing region matches none).
\<close>

definition merge_scores :: "hex_row list \<Rightarrow> score_row list \<Rightarrow> hex_row list" where
  "merge_scores hex_df scores_df =
     concat (map (\<lambda>h.
       case filter (\<lambda>s. region h = Some (region_name s)) scores_df of
         [] \<Rightarrow> [h\<lparr>sustainability := None, profitability := None\<rparr>]
       | ms \<Rightarrow> map (\<lambda>s. h\<lparr>sustainability := region_sustainability s,
                             profitability := region_profitability s\<rparr>) ms) hex_df)"

text \<open>
  An entry of the distance matrix: a distance, or the infinity that
  \<^verbatim>\<open>np.fill_diagonal(dist, np.inf)\<close> writes on the diagonal.
\<close>

datatype xreal = Fin real | PInf

instantiation xreal :: linorder
begin

fun less_eq_xreal :: "xreal \<Rightarrow> xreal \<Rightarrow> bool" where
  "less_eq_xreal (Fin a) (Fin b) = (a \<le> b)"
| "less_eq_xreal x PInf = True"
| "less_eq_xreal PInf (Fin b) = False"

definition less_xreal :: "xreal \<Rightarrow> xreal \<Rightarrow> bool" where
  "less_xreal x y = (x \<le> y \<and> \<not> y \<le> x)"

instance
proof
  fix x y z :: xreal
  show "(x < y) = (x \<le> y \<and> \<not> y \<le> x)" by (simp add: less_xreal_def)
  show "x \<le> x" by (cases x) simp_all
  show "x \<le> y \<Longrightarrow> y \<le> z \<Longrightarrow> x \<le> z" by (cases x; cases y; cases z) simp_all
  show "x \<le> y \<Longrightarrow> y \<le> x \<Longrightarrow> x = y" by (cases x; cases y) simp_all
  show "x \<le> y \<or> y \<le> x" by (cases x; cases y) auto
qed

end

text \<open>
  The matrix \<^verbatim>\<open>dist\<close> of \<^verbatim>\<open>knn_smooth\<close>: the haversine distance between every two valid
  hexes, with the diagonal set to infinity. \<open>haversine_pair\<close> is the entry off the
  diagonal, computed as the source does from the coordinates in radians.
\<close>

definition haversine_pair :: "real \<times> real \<Rightarrow> real \<times> real \<Rightarrow> real" where
  "haversine_pair c1 c2 =
     (let la1 = radians (fst c1); lo1 = radians (snd c1);
          la2 = radians (fst c2); lo2 = radians (snd c2);
          dphi = la1 - la2;
          dlambda = lo1 - lo2;
          a = (sin (dphi / 2))\<^sup>2 + cos la1 * cos la2 * (sin (dlambda / 2))\<^sup>2
      in 2 * 6371000 * arctan2 (sqrt a) (sqrt (1 - a)))"

definition pairwise_dist :: "(real \<times> real) list \<Rightarrow> xreal list list" where
  "pairwise_dist coords_valid =
     (let n = length coords_valid
      in map (\<lambda>i. map (\<lambda>j.
           if i = j then PInf
           else Fin (haversine_pair (coords_valid ! i) (coords_valid ! j))) [0..<n]) [0..<n])"

text \<open>
  \<^verbatim>\<open>np.argpartition(row, kth)\<close> returns a permutation of the indices of the row that puts
  at position \<open>kth\<close> an index the sorted order would put there, indices of entries not
  larger before it and indices of entries not smaller after it. Which permutation it is
  among those, numpy leaves open, so the smoothing takes the function as a parameter and
  \<open>partition_ok\<close> states the contract.
\<close>

type_synonym argpartition = "xreal list \<Rightarrow> nat \<Rightarrow> nat list"

definition partition_ok :: "argpartition \<Rightarrow> bool" where
  "partition_ok ap \<longleftrightarrow>
     (\<forall>row kth. kth < length row \<longrightarrow>
        length (ap row kth) = length row \<and>
        distinct (ap row kth) \<and>
        set (ap row kth) = {0..<length row} \<and>
        (\<forall>a<kth. row ! (ap row kth ! a) \<le> row ! (ap row kth ! kth)) \<and>
        (\<forall>b. kth < b \<and> b < length row \<longrightarrow> row ! (ap row kth ! kth) \<le> row ! (ap row kth ! b)))"

text \<open>One function that meets the contract: a stable sort of the indices by their entries.\<close>

definition argsort_partition :: argpartition where
  "argsort_partition row kth = sort_key (\<lambda>i. row ! i) [0..<length row]"

text \<open>Sum and mean of a row of values; NaN as soon as one value is.\<close>

definition nsum :: "num list \<Rightarrow> num" where
  "nsum xs = foldl nadd (Some 0) xs"

definition nmean :: "num list \<Rightarrow> num" where
  "nmean xs = ndiv (nsum xs) (Some (real (length xs)))"

text \<open>The rows with both coordinates, as \<open>(index, lat, lon)\<close>: \<^verbatim>\<open>coords_arr[valid]\<close>.\<close>

fun valid_rows :: "nat \<Rightarrow> (num \<times> num) list \<Rightarrow> (nat \<times> real \<times> real) list" where
  "valid_rows i [] = []"
| "valid_rows i ((Some la, Some lo) # cs) = (i, la, lo) # valid_rows (i + 1) cs"
| "valid_rows i (c # cs) = valid_rows (i + 1) cs"

text \<open>\<^verbatim>\<open>smoothed[valid] = smoothed_valid\<close>\<close>

definition scatter :: "num list \<Rightarrow> nat list \<Rightarrow> num list \<Rightarrow> num list" where
  "scatter smoothed idx new = fold (\<lambda>(i, v) s. s[i := v]) (zip idx new) smoothed"

text \<open>
  \<^verbatim>\<open>knn_idx\<close>: for every valid hex the positions, among the valid hexes, of the
  \<open>k_eff\<close> entries that \<^verbatim>\<open>argpartition\<close> puts first in its row of distances.
\<close>

definition knn_index :: "argpartition \<Rightarrow> (real \<times> real) list \<Rightarrow> nat \<Rightarrow> nat list list" where
  "knn_index argpart coords_valid k_eff =
     map (\<lambda>row. take k_eff (argpart row (k_eff - 1))) (pairwise_dist coords_valid)"

definition knn_smooth :: "argpartition \<Rightarrow> (num \<times> num) list \<Rightarrow> num list \<Rightarrow> nat \<Rightarrow> real \<Rightarrow> num list" where
  "knn_smooth argpart coords_arr vals k self_weight =
     (let smoothed = vals;
          valid = valid_rows 0 coords_arr;
          valid_count = length valid
      in if valid_count < 2 then smoothed
         else
           (let k_eff = max 1 (min k (valid_count - 1));
                coords_valid = map snd valid;
                vals_valid = map (\<lambda>v. vals ! fst v) valid;
                knn_idx = knn_index argpart coords_valid k_eff;
                neighbor_means = map (\<lambda>idx. nmean (map (\<lambda>j. vals_valid ! j) idx)) knn_idx;
                smoothed_valid =
                  map2 (\<lambda>v m. nadd (nmul (Some self_weight) v) (nmul (Some (1 - self_weight)) m))
                    vals_valid neighbor_means
            in scatter smoothed (map fst valid) smoothed_valid))"

text \<open>
  The smoothing pool: for every valid hex, in the order of the frame, the rows of the
  frame whose scores are averaged for it (\<^verbatim>\<open>knn_idx\<close> read back through \<^verbatim>\<open>valid\<close>). There
  is none when fewer than two hexes are valid.
\<close>

definition smoothing_pool :: "argpartition \<Rightarrow> (num \<times> num) list \<Rightarrow> nat \<Rightarrow> nat list list" where
  "smoothing_pool argpart coords_arr k =
     (let valid = valid_rows 0 coords_arr;
          valid_count = length valid
      in if valid_count < 2 then []
         else map (map (\<lambda>j. fst (valid ! j)))
                (knn_index argpart (map snd valid) (max 1 (min k (valid_count - 1)))))"

text \<open>
  \<^verbatim>\<open>compute_hex_scores\<close>. The columns are computed whole, as pandas does, and written
  back row by row.
\<close>

definition TEMP_WEIGHT :: real where "TEMP_WEIGHT = 15 / 100"
definition ELEV_WEIGHT :: real where "ELEV_WEIGHT = 5 / 100"
definition SMOOTH_K :: nat where "SMOOTH_K = 20"
definition SMOOTH_BLEND :: real where "SMOOTH_BLEND = 25 / 100"

definition compute_hex_scores :: "argpartition \<Rightarrow> hex_row list \<Rightarrow> hex_row list" where
  "compute_hex_scores argpart hex_df =
     (let temp_norm_col = minmax_clamped (map local_temp_c hex_df) (1 / 100) (99 / 100);
          temp_cool_col = map (\<lambda>t. nsub (Some 1) t) temp_norm_col;
          elev_norm_col = minmax_clamped (map elevation_m hex_df) (1 / 100) (99 / 100);
          sust_col = map (\<lambda>i. nadd (nadd (sustainability (hex_df ! i))
                                      (nmul (temp_cool_col ! i) (Some TEMP_WEIGHT)))
                                (nmul (elev_norm_col ! i) (Some ELEV_WEIGHT)))
                       [0..<length hex_df];
          prof_col = map profitability hex_df;
          dc_col = map (\<lambda>i. nadd (nmul (Some (6 / 10)) (sust_col ! i))
                                (nmul (Some (4 / 10)) (prof_col ! i)))
                     [0..<length hex_df];
          coords = map (\<lambda>row. (lat row, lon row)) hex_df;
          smooth_col = knn_smooth argpart coords dc_col SMOOTH_K SMOOTH_BLEND
      in map (\<lambda>i. (hex_df ! i)\<lparr>
             temp_norm := temp_norm_col ! i,
             temp_cool_score := temp_cool_col ! i,
             elev_norm := elev_norm_col ! i,
             sustainability_hex := sust_col ! i,
             profitability_hex := prof_col ! i,
             dc_score_hex := dc_col ! i,
             dc_score_hex_smooth := smooth_col ! i\<rparr>) [0..<length hex_df])"

section \<open>The geometry collection\<close>

text \<open>
  A JSON value of a property map. \<open>JNum None\<close> is a missing number: the NaN of a frame,
  or the null that \<^verbatim>\<open>row.get\<close> gives for a column the frame does not have.
\<close>

datatype jvalue = JNull | JNum num | JInt int | JStr string

text \<open>
  The property map of a feature. The four keys the loader reads have the types the
  base map gives them (\<open>None\<close>: the key is absent or null); \<open>p_rest\<close> maps every
  other key.
\<close>

record props =
  p_hex_id :: "int option"
  p_lat :: num
  p_lon :: num
  p_region :: "string option"
  p_rest :: "string \<rightharpoonup> jvalue"

text \<open>
  A feature: its property map (\<open>None\<close>: \<^verbatim>\<open>"properties": null\<close>; a feature without the
  key is one with the empty map, which both readers make of it) and everything else it
  holds, which the pipeline never reads.
\<close>

record feature =
  geometry :: string
  properties :: "props option"

definition empty_props :: props where
  "empty_props = \<lparr>p_hex_id = None, p_lat = None, p_lon = None, p_region = None, p_rest = Map.empty\<rparr>"

text \<open>\<^verbatim>\<open>feat.get("properties", {}) or {}\<close>\<close>

definition props_or_empty :: "feature \<Rightarrow> props" where
  "props_or_empty feat = (case properties feat of None \<Rightarrow> empty_props | Some p \<Rightarrow> p)"

text \<open>The property map as the dictionary it is: \<^verbatim>\<open>props.get(k)\<close>.\<close>

definition props_get :: "props \<Rightarrow> string \<Rightarrow> jvalue option" where
  "props_get p k =
     (if k = ''hex_id'' then map_option JInt (p_hex_id p)
      else if k = ''lat'' then map_option (\<lambda>x. JNum (Some x)) (p_lat p)
      else if k = ''lon'' then map_option (\<lambda>x. JNum (Some x)) (p_lon p)
      else if k = ''region'' then map_option JStr (p_region p)
      else p_rest p k)"

section \<open>Loader\<close>

text \<open>\<^verbatim>\<open>drop_duplicates("hex_id")\<close>: the first row of every key.\<close>

fun drop_duplicates :: "int list \<Rightarrow> (int \<times> 'a) list \<Rightarrow> (int \<times> 'a) list" where
  "drop_duplicates seen [] = []"
| "drop_duplicates seen (r # rs) =
     (if fst r \<in> set seen then drop_duplicates seen rs
      else r # drop_duplicates (fst r # seen) rs)"

text \<open>
  \<^verbatim>\<open>left.merge(right, on="hex_id", how="left")\<close>: every left row once per right row of
  the same key, and once with missing values when there is none.
\<close>

definition merge_left :: "(int \<times> 'a) list \<Rightarrow> (int \<times> 'b) list \<Rightarrow> (int \<times> 'a \<times> 'b option) list" where
  "merge_left left right =
     concat (map (\<lambda>l.
       case filter (\<lambda>r. fst r = fst l) right of
         [] \<Rightarrow> [(fst l, snd l, None)]
       | ms \<Rightarrow> map (\<lambda>r. (fst l, snd l, Some (snd r))) ms) left)"

text \<open>The two lists the loop over the features builds.\<close>

definition lat_lon_rows :: "feature list \<Rightarrow> (int \<times> real \<times> real) list" where
  "lat_lon_rows features =
     List.map_filter (\<lambda>feat.
       let p = props_or_empty feat in
       case (p_hex_id p, p_lat p, p_lon p) of
         (Some hid, Some la, Some lo) \<Rightarrow> Some (hid, la, lo)
       | _ \<Rightarrow> None) features"

definition region_rows :: "feature list \<Rightarrow> (int \<times> string) list" where
  "region_rows features =
     List.map_filter (\<lambda>feat.
       let p = props_or_empty feat in
       case (p_hex_id p, p_region p) of
         (Some hid, Some reg) \<Rightarrow> Some (hid, reg)
       | _ \<Rightarrow> None) features"

text \<open>
  \<^verbatim>\<open>load_base_data\<close>, the three files read. A frame built from an empty list of rows
  has no columns, and pandas raises KeyError when such a frame is merged on
  \<^verbatim>\<open>hex_id\<close>.
\<close>

definition load_base_data ::
    "score_row list \<Rightarrow> climate_row list \<Rightarrow> feature list
       \<Rightarrow> error + (score_row list \<times> hex_row list \<times> feature list)" where
  "load_base_data scores_df hex_csv features =
     (let latlon_df = drop_duplicates [] (lat_lon_rows features);
          region_df = drop_duplicates [] (region_rows features)
      in if latlon_df = [] then Inl (KeyError ''hex_id'')
         else
           (let hex1 = merge_left (map (\<lambda>c. (hex_id c, c)) hex_csv) latlon_df
            in if region_df = [] then Inl (KeyError ''hex_id'')
               else
                 (let hex2 = merge_left (map (\<lambda>(k, c, ll). (k, (c, ll))) hex1) region_df
                  in Inr (scores_df,
                          map (\<lambda>(k, (c, ll), reg).
                                \<lparr>hex_id = hex_id c, local_temp_c = local_temp_c c,
                                 elevation_m = elevation_m c,
                                 lat = map_option fst ll, lon = map_option snd ll,
                                 region = reg, dist_to_region_m = None,
                                 sustainability = None, profitability = None,
                                 temp_norm = None, temp_cool_score = None, elev_norm = None,
                                 sustainability_hex = None, profitability_hex = None,
                                 dc_score_hex = None, dc_score_hex_smooth = None\<rparr>) hex2,
                          features))))"

section \<open>Writer\<close>

text \<open>The fourteen keys of the dictionary passed to \<^verbatim>\<open>props.update\<close>, in its order.\<close>

definition written_fields :: "string list" where
  "written_fields =
     [''hex_id'', ''region'', ''lat'', ''lon'', ''local_temp_c'', ''elevation_m'',
      ''temp_cool_score'', ''elev_norm'', ''dist_to_region'', ''profitability'',
      ''sustainability'', ''dc_score'', ''dc_score_smooth'', ''dc_score_temp'']"

definition write_props :: "hex_row \<Rightarrow> props \<Rightarrow> props" where
  "write_props row p =
     p\<lparr>p_hex_id := Some (hex_id row),
       p_region := region row,
       p_lat := lat row,
       p_lon := lon row,
       p_rest := p_rest p ++ map_of
         [(''local_temp_c'', JNum (local_temp_c row)),
          (''elevation_m'', JNum (elevation_m row)),
          (''temp_cool_score'', JNum (temp_cool_score row)),
          (''elev_norm'', JNum (elev_norm row)),
          (''dist_to_region'', JNum (dist_to_region_m row)),
          (''profitability'', JNum (profitability_hex row)),
          (''sustainability'', JNum (sustainability_hex row)),
          (''dc_score'', JNum (dc_score_hex row)),
          (''dc_score_smooth'', JNum (dc_score_hex_smooth row)),
          (''dc_score_temp'', JNum (dc_score_hex row))]\<rparr>"

text \<open>
  \<^verbatim>\<open>by_hex\<close>: the dictionary from the \<^verbatim>\<open>hex_id\<close> of a feature to the feature, here to its
  position in the list. A later feature replaces an earlier one of the same key, and
  \<^verbatim>\<open>"properties": null\<close> raises AttributeError, since this reader has no \<^verbatim>\<open>or {}\<close>.
\<close>

fun build_by_hex :: "feature list \<Rightarrow> nat \<Rightarrow> (int option \<rightharpoonup> nat) \<Rightarrow> error + (int option \<rightharpoonup> nat)" where
  "build_by_hex [] i m = Inr m"
| "build_by_hex (f # fs) i m =
     (case properties f of
        None \<Rightarrow> Inl (AttributeError ''get'')
      | Some p \<Rightarrow> build_by_hex fs (i + 1) (m(p_hex_id p \<mapsto> i)))"

fun update_loop :: "(int option \<rightharpoonup> nat) \<Rightarrow> hex_row list \<Rightarrow> feature list \<Rightarrow> feature list" where
  "update_loop by_hex [] features = features"
| "update_loop by_hex (row # rows) features =
     (case by_hex (Some (hex_id row)) of
        None \<Rightarrow> update_loop by_hex rows features
      | Some i \<Rightarrow>
          update_loop by_hex rows
            (features[i := (features ! i)\<lparr>properties :=
               Some (write_props row (props_or_empty (features ! i)))\<rparr>]))"

text \<open>
  \<^verbatim>\<open>np.float64(n)\<close> of an int64 \<open>n\<close>, as the integer it denotes: \<open>n\<close> itself below \<open>2^53\<close>,
  and \<open>n\<close> rounded to 53 significant bits, ties to even, from there on.
\<close>

definition to_float64 :: "int \<Rightarrow> int" where
  "to_float64 n =
     (let m = \<bar>n\<bar> in
      if m < 2 ^ 53 then n
      else
        (let e = nat (bitlen m) - 53;
             q = m div 2 ^ e;
             r = m mod 2 ^ e;
             q' = (if 2 ^ (e - 1) < r \<or> (r = 2 ^ (e - 1) \<and> odd q) then q + 1 else q)
         in sgn n * (q' * 2 ^ e)))"

text \<open>
  \<^verbatim>\<open>scored_df.iterrows()\<close> yields every row as a Series of a single dtype. A frame with a
  column that is not numeric yields rows of dtype object, which hold the \<^verbatim>\<open>hex_id\<close> of the
  frame as it is. A frame whose columns are all numeric (\<open>numeric\<close>) yields rows of dtype
  float64, in which \<^verbatim>\<open>row["hex_id"]\<close> is the double of the identifier; the loop looks that
  double up in \<^verbatim>\<open>by_hex\<close>, where it finds the integer key it equals, and writes
  \<^verbatim>\<open>int(hid)\<close>.
\<close>

definition iterrows :: "bool \<Rightarrow> hex_row list \<Rightarrow> hex_row list" where
  "iterrows numeric df =
     (if numeric then map (\<lambda>row. row\<lparr>hex_id := to_float64 (hex_id row)\<rparr>) df else df)"

definition update_features :: "bool \<Rightarrow> feature list \<Rightarrow> hex_row list \<Rightarrow> error + feature list" where
  "update_features numeric features scored_df =
     (case build_by_hex features 0 Map.empty of
        Inl e \<Rightarrow> Inl e
      | Inr by_hex \<Rightarrow> Inr (update_loop by_hex (iterrows numeric scored_df) features))"

section \<open>The pipeline\<close>

text \<open>
  \<^verbatim>\<open>main\<close>: the features of the collection written to \<^verbatim>\<open>score_map_hex.json\<close>, or the
  exception that ends the run before anything is written. The frame that reaches the
  writer has the column \<^verbatim>\<open>region\<close>, which the loader merges in from a frame of strings, so
  it is not all numeric.
\<close>

definition main ::
    "argpartition \<Rightarrow> score_row list \<Rightarrow> climate_row list \<Rightarrow> feature list \<Rightarrow> error + feature list" where
  "main argpart scores_csv hex_csv base_features =
     (case load_base_data scores_csv hex_csv base_features of
        Inl e \<Rightarrow> Inl e
      | Inr (scores_df, hex_df, features) \<Rightarrow>
          (case assign_region_if_missing hex_df scores_df of
             Inl e \<Rightarrow> Inl e
           | Inr hex_df' \<Rightarrow>
               (let merged = merge_scores hex_df' scores_df;
                    scored = compute_hex_scores argpart merged
                in update_features False features scored)))"

section \<open>Example inputs\<close>

text \<open>
  Small inputs on which the theorems below are exercised. The coordinates lie on the
  equator at longitude 0 and 180, where the haversine formula evaluates in closed form.
\<close>

definition mk_hex :: "int \<Rightarrow> num \<Rightarrow> num \<Rightarrow> string option \<Rightarrow> hex_row" where
  "mk_hex hid la lo reg =
     \<lparr>hex_id = hid, local_temp_c = None, elevation_m = None,
      lat = la, lon = lo, region = reg, dist_to_region_m = None,
      sustainability = None, profitability = None,
      temp_norm = None, temp_cool_score = None, elev_norm = None,
      sustainability_hex = None, profitability_hex = None,
      dc_score_hex = None, dc_score_hex_smooth = None\<rparr>"

definition mk_region :: "string \<Rightarrow> real \<Rightarrow> real \<Rightarrow> real \<Rightarrow> real \<Rightarrow> score_row" where
  "mk_region name la lo s p =
     \<lparr>region_name = name, region_lat = la, region_lon = lo,
      region_sustainability = Some s, region_profitability = Some p\<rparr>"

text \<open>Three regions: \<open>Far\<close> at the antipode of the origin, then \<open>A\<close> and \<open>A2\<close> at the origin.\<close>

definition ex_regions :: "score_row list" where
  "ex_regions =
     [mk_region ''Far'' 0 180 (8 / 10) (3 / 10),
      mk_region ''A'' 0 0 (1 / 2) (1 / 2),
      mk_region ''A2'' 0 0 (1 / 10) (1 / 10)]"

text \<open>
  Three hexes at the origin: one tagged \<open>Far\<close> already, one without a region, one without
  a region and without coordinates.
\<close>

definition ex_hexes :: "hex_row list" where
  "ex_hexes =
     [mk_hex 1 (Some 0) (Some 0) (Some ''Far''),
      mk_hex 2 (Some 0) (Some 0) None,
      mk_hex 3 None None None]"


text \<open>
  Two features, of hex 1 and hex 5, each with a property the writer does not know, and
  two scored rows, of hex 1 and of hex 9, which no feature has.
\<close>

definition ex_features :: "feature list" where
  "ex_features =
     [\<lparr>geometry = ''hexagon 1'',
       properties = Some \<lparr>p_hex_id = Some 1, p_lat = Some 0, p_lon = Some 0,
         p_region = Some ''Far'',
         p_rest = [''name'' \<mapsto> JStr ''one'', ''dc_score'' \<mapsto> JNum (Some 9)]\<rparr>\<rparr>,
      \<lparr>geometry = ''hexagon 5'',
       properties = Some \<lparr>p_hex_id = Some 5, p_lat = None, p_lon = None,
         p_region = None,
         p_rest = [''name'' \<mapsto> JStr ''five'']\<rparr>\<rparr>]"

definition ex_scored :: "hex_row list" where
  "ex_scored =
     [(mk_hex 1 (Some 0) (Some 0) (Some ''Far''))\<lparr>dc_score_hex := Some (1 / 2)\<rparr>,
      (mk_hex 9 (Some 0) (Some 0) (Some ''A''))\<lparr>dc_score_hex := Some (1 / 4)\<rparr>]"

text \<open>A climate table of hex 1, which the base map has, and hex 9, which it has not.\<close>

definition ex_climate :: "climate_row list" where
  "ex_climate =
     [\<lparr>hex_id = 1, local_temp_c = Some 20, elevation_m = Some 100\<rparr>,
      \<lparr>hex_id = 9, local_temp_c = Some 10, elevation_m = None\<rparr>]"

text \<open>
  Three joined hex rows without temperature and elevation: two at the origin and, between
  them, one without coordinates.
\<close>

definition ex_merged :: "hex_row list" where
  "ex_merged =
     [(mk_hex 1 (Some 0) (Some 0) (Some ''A''))
        \<lparr>sustainability := Some (1 / 2), profitability := Some (1 / 2)\<rparr>,
      (mk_hex 2 None (Some 0) (Some ''A''))
        \<lparr>sustainability := Some (9 / 10), profitability := Some (1 / 2)\<rparr>,
      (mk_hex 3 (Some 0) (Some 0) (Some ''A''))
        \<lparr>sustainability := Some (1 / 10), profitability := Some (1 / 2)\<rparr>]"



section \<open>Facts about the normalisation\<close>

lemma dropna_Nil_iff: "dropna xs = [] \<longleftrightarrow> (\<forall>x\<in>set xs. x = None)"
  by (induction xs rule: dropna.induct) auto

lemma sort_Nil_iff: "sort xs = [] \<longleftrightarrow> xs = []"
  by (metis length_sort length_0_conv)

lemma quantile_None_iff: "quantile s q = None \<longleftrightarrow> dropna s = []"
  by (simp add: quantile_def Let_def sort_Nil_iff)

lemma quantile_unfold:
  "quantile s q =
     (if dropna s = [] then None
      else Some (sort (dropna s) ! nat \<lfloor>q * real (length (dropna s) - 1)\<rfloor>
        + (sort (dropna s) ! min (nat \<lfloor>q * real (length (dropna s) - 1)\<rfloor> + 1) (length (dropna s) - 1)
            - sort (dropna s) ! nat \<lfloor>q * real (length (dropna s) - 1)\<rfloor>)
          * (q * real (length (dropna s) - 1) - real (nat \<lfloor>q * real (length (dropna s) - 1)\<rfloor>))))"
  by (simp add: quantile_def Let_def sort_Nil_iff)

lemma interp_between:
  fixes vs :: "real list"
  assumes "sorted vs" "i \<le> j" "j < length vs" "0 \<le> t" "t \<le> 1"
  shows "vs ! i \<le> vs ! i + (vs ! j - vs ! i) * t" "vs ! i + (vs ! j - vs ! i) * t \<le> vs ! j"
proof -
  have le: "vs ! i \<le> vs ! j" using assms by (simp add: sorted_nth_mono)
  then have d: "0 \<le> vs ! j - vs ! i" by simp
  show "vs ! i \<le> vs ! i + (vs ! j - vs ! i) * t"
    using d assms(4) by simp
  have "(vs ! j - vs ! i) * t \<le> (vs ! j - vs ! i) * 1"
    using d assms(5) by (intro mult_left_mono) auto
  then show "vs ! i + (vs ! j - vs ! i) * t \<le> vs ! j" by simp
qed

lemma quantile_mono:
  assumes q: "0 \<le> q1" "q1 \<le> q2" "q2 \<le> 1"
    and a: "quantile s q1 = Some a" and b: "quantile s q2 = Some b"
  shows "a \<le> b"
proof -
  define vs where "vs = sort (dropna s)"
  define n where "n = length vs"
  define p1 where "p1 = q1 * real (n - 1)"
  define p2 where "p2 = q2 * real (n - 1)"
  define i1 where "i1 = nat \<lfloor>p1\<rfloor>"
  define i2 where "i2 = nat \<lfloor>p2\<rfloor>"
  define j1 where "j1 = min (i1 + 1) (n - 1)"
  define j2 where "j2 = min (i2 + 1) (n - 1)"
  have n0': "dropna s \<noteq> []" using a by (auto simp: quantile_unfold split: if_splits)
  then have n0: "n \<noteq> 0" by (simp add: n_def vs_def)
  have nl: "length (dropna s) = n" by (simp add: n_def vs_def)
  have srt: "sorted vs" by (simp add: vs_def)
  have a_eq: "a = vs ! i1 + (vs ! j1 - vs ! i1) * (p1 - real i1)"
    using a n0' unfolding quantile_unfold nl p1_def i1_def j1_def vs_def by simp
  have b_eq: "b = vs ! i2 + (vs ! j2 - vs ! i2) * (p2 - real i2)"
    using b n0' unfolding quantile_unfold nl p2_def i2_def j2_def vs_def by simp
  have p1_0: "0 \<le> p1" using q by (simp add: p1_def)
  have p2_0: "0 \<le> p2" using q by (simp add: p2_def)
  have p12: "p1 \<le> p2" using q by (simp add: p1_def p2_def mult_right_mono)
  have p2n: "p2 \<le> real (n - 1)" using q by (simp add: p2_def mult_left_le_one_le)
  have i12: "i1 \<le> i2" using p12 by (simp add: i1_def i2_def floor_mono nat_mono)
  have "\<lfloor>p2\<rfloor> \<le> int (n - 1)" using p2n by (simp add: floor_le_iff) 
  then have i2n: "i2 \<le> n - 1" by (simp add: i2_def)
  have f1: "0 \<le> p1 - real i1" "p1 - real i1 \<le> 1"
    using p1_0 by (simp_all add: i1_def) linarith+
  have f2: "0 \<le> p2 - real i2" "p2 - real i2 \<le> 1"
    using p2_0 by (simp_all add: i2_def) linarith+
  have npos: "0 < n" using n0 by simp
  have j1n: "j1 < length vs" "i1 \<le> j1" using npos i12 i2n unfolding j1_def n_def by linarith+
  have j2n: "j2 < length vs" "i2 \<le> j2" using npos i2n unfolding j2_def n_def by linarith+
  have a_le: "a \<le> vs ! j1" and a_ge: "vs ! i1 \<le> a"
    unfolding a_eq using interp_between[OF srt j1n(2) j1n(1) f1] by auto
  have b_ge: "vs ! i2 \<le> b"
    unfolding b_eq using interp_between[OF srt j2n(2) j2n(1) f2] by auto
  show ?thesis
  proof (cases "i1 < i2")
    case True
    then have "j1 \<le> i2" by (simp add: j1_def)
    moreover have "i2 < length vs" using i2n npos unfolding n_def by linarith
    ultimately have "vs ! j1 \<le> vs ! i2" using srt by (simp add: sorted_nth_mono)
    with a_le b_ge show ?thesis by linarith
  next
    case False
    then have e: "i1 = i2" using i12 by simp
    then have ej: "j1 = j2" by (simp add: j1_def j2_def)
    have d: "0 \<le> vs ! j2 - vs ! i2"
      using srt j2n by (simp add: sorted_nth_mono)
    have "(vs ! j2 - vs ! i2) * (p1 - real i2) \<le> (vs ! j2 - vs ! i2) * (p2 - real i2)"
      using d p12 by (intro mult_left_mono) auto
    then show ?thesis unfolding a_eq b_eq e ej by simp
  qed
qed

lemma quantile_const:
  assumes q: "0 \<le> q" "q \<le> 1" and ne: "dropna s \<noteq> []"
    and c: "\<forall>x\<in>set (dropna s). x = c"
  shows "quantile s q = Some c"
proof -
  define vs where "vs = sort (dropna s)"
  define n where "n = length (dropna s)"
  have all: "\<And>k. k < n \<Longrightarrow> vs ! k = c"
  proof -
    fix k assume "k < n"
    then have "vs ! k \<in> set vs" unfolding vs_def n_def by (metis length_sort nth_mem)
    then show "vs ! k = c" using c by (simp add: vs_def)
  qed
  have npos: "0 < n" using ne by (simp add: n_def)
  have "q * real (n - 1) \<le> real (n - 1)" using q by (simp add: mult_left_le_one_le)
  then have "\<lfloor>q * real (n - 1)\<rfloor> \<le> int (n - 1)" by (simp add: floor_le_iff)
  then have i: "nat \<lfloor>q * real (n - 1)\<rfloor> < n" using npos by linarith
  have j: "min (nat \<lfloor>q * real (n - 1)\<rfloor> + 1) (n - 1) < n" using npos by linarith
  show ?thesis
    unfolding quantile_unfold using ne all[OF i] all[OF j]
    by (simp add: vs_def n_def)
qed

lemma cell_norm:
  assumes lh: "l \<le> h"
  shows "\<exists>v. fillna (1/2) (ndiv (nsub (clip c (Some l) (Some h)) (Some l)) (rng_of (Some l) (Some h))) = Some v
           \<and> 0 \<le> v \<and> v \<le> 1
           \<and> (c = None \<longrightarrow> v = 1/2)
           \<and> (\<forall>x. c = Some x \<longrightarrow> v = (min (max x l) h - l) / (if l < h then h - l else 1))
           \<and> (l = h \<longrightarrow> c \<noteq> None \<longrightarrow> v = 0)"
proof (cases c)
  case None
  then show ?thesis by (intro exI[of _ "1/2"]) (simp add: nsub_def ndiv_def)
next
  case (Some x)
  show ?thesis
  proof (cases "l < h")
    case True
    have "0 \<le> min (max x l) h - l" using lh by simp
    moreover have "min (max x l) h - l \<le> h - l" by simp
    ultimately show ?thesis using Some True
      by (simp add: nsub_def ndiv_def rng_of_def)
  next
    case False
    then have "l = h" using lh by simp
    then show ?thesis using Some
      by (simp add: nsub_def ndiv_def rng_of_def)
  qed
qed

section \<open>The normalisation stays in the unit interval, in exact arithmetic\<close>

text \<open>
  The normalisation in exact arithmetic. For every column, \<open>minmax_clamped\<close> with the 1st
  and 99th percentile gives a column of the same length whose every entry is a number in
  \<open>[0, 1]\<close>: a missing entry becomes \<open>1/2\<close>; an entry \<open>x\<close> becomes
  \<open>(min (max x l) h - l) / rng\<close> for the two percentile bounds \<open>l \<le> h\<close>, where \<open>rng\<close>
  is \<open>h - l\<close> when \<open>l < h\<close> and \<open>1\<close> when the bounds are equal; so with equal bounds,
  and in particular in a column whose numbers are all the same, every number maps to
  \<open>0\<close>. This is what claim C6 says, and it holds of the algorithm over the reals. It
  does not hold of the program in doubles on every column: in the column of \<open>1e308\<close> and
  \<open>-1e308\<close> the difference of the two order statistics overflows, the bounds are
  \<open>inf\<close> and \<open>-inf\<close>, and both entries become \<open>-inf\<close>.
\<close>

theorem minmax_clamped_unit_interval:
  "length (minmax_clamped series (1/100) (99/100)) = length series \<and>
   (quantile series (1/100) = quantile series (99/100) \<longrightarrow>
      rng_of (quantile series (1/100)) (quantile series (99/100)) = Some 1) \<and>
   (\<forall>i<length series. \<exists>v.
      minmax_clamped series (1/100) (99/100) ! i = Some v \<and> 0 \<le> v \<and> v \<le> 1
      \<and> (series ! i = None \<longrightarrow> v = 1/2)
      \<and> (\<forall>x. series ! i = Some x \<longrightarrow>
            (\<exists>l h. quantile series (1/100) = Some l \<and> quantile series (99/100) = Some h \<and> l \<le> h
               \<and> v = (min (max x l) h - l) / (if l < h then h - l else 1)))
      \<and> (series ! i \<noteq> None \<longrightarrow> quantile series (1/100) = quantile series (99/100) \<longrightarrow> v = 0)
      \<and> (series ! i \<noteq> None \<longrightarrow> (\<exists>c. \<forall>y\<in>set (dropna series). y = c) \<longrightarrow> v = 0))"
proof (intro conjI allI impI)
  show "length (minmax_clamped series (1/100) (99/100)) = length series"
    by (simp add: minmax_clamped_def Let_def)
next
  assume "quantile series (1/100) = quantile series (99/100)"
  then show "rng_of (quantile series (1/100)) (quantile series (99/100)) = Some 1"
    by (cases "quantile series (99/100)") (simp_all add: rng_of_def)
next
  fix i assume i: "i < length series"
  let ?lo = "quantile series (1/100)" and ?hi = "quantile series (99/100)"
  have cell: "minmax_clamped series (1/100) (99/100) ! i
      = fillna (1/2) (ndiv (nsub (clip (series ! i) ?lo ?hi) ?lo) (rng_of ?lo ?hi))"
    using i by (simp add: minmax_clamped_def Let_def)
  show "\<exists>v. minmax_clamped series (1/100) (99/100) ! i = Some v \<and> 0 \<le> v \<and> v \<le> 1
      \<and> (series ! i = None \<longrightarrow> v = 1/2)
      \<and> (\<forall>x. series ! i = Some x \<longrightarrow>
            (\<exists>l h. ?lo = Some l \<and> ?hi = Some h \<and> l \<le> h
               \<and> v = (min (max x l) h - l) / (if l < h then h - l else 1)))
      \<and> (series ! i \<noteq> None \<longrightarrow> ?lo = ?hi \<longrightarrow> v = 0)
      \<and> (series ! i \<noteq> None \<longrightarrow> (\<exists>c. \<forall>y\<in>set (dropna series). y = c) \<longrightarrow> v = 0)"
  proof (cases "dropna series = []")
    case True
    then have "series ! i = None" using i by (simp add: dropna_Nil_iff)
    moreover have "?lo = None" "?hi = None" using True by (simp_all add: quantile_None_iff)
    ultimately show ?thesis unfolding cell by (intro exI[of _ "1/2"]) (simp add: nsub_def ndiv_def)
  next
    case False
    then have "?lo \<noteq> None" "?hi \<noteq> None" by (simp_all add: quantile_None_iff)
    then obtain l h where l: "?lo = Some l" and h: "?hi = Some h"
      by blast
    have lh: "l \<le> h" by (rule quantile_mono[OF _ _ _ l h]) simp_all
    from cell_norm[OF lh, of "series ! i"] obtain v where
      vv: "fillna (1/2) (ndiv (nsub (clip (series ! i) (Some l) (Some h)) (Some l)) (rng_of (Some l) (Some h))) = Some v
        \<and> 0 \<le> v \<and> v \<le> 1 \<and> (series ! i = None \<longrightarrow> v = 1/2)
        \<and> (\<forall>x. series ! i = Some x \<longrightarrow> v = (min (max x l) h - l) / (if l < h then h - l else 1))
        \<and> (l = h \<longrightarrow> series ! i \<noteq> None \<longrightarrow> v = 0)" ..
    note v = vv[THEN conjunct1] vv[THEN conjunct2, THEN conjunct1]
      vv[THEN conjunct2, THEN conjunct2, THEN conjunct1]
      vv[THEN conjunct2, THEN conjunct2, THEN conjunct2, THEN conjunct1]
      vv[THEN conjunct2, THEN conjunct2, THEN conjunct2, THEN conjunct2, THEN conjunct1]
      vv[THEN conjunct2, THEN conjunct2, THEN conjunct2, THEN conjunct2, THEN conjunct2]
    have const: "(\<exists>c. \<forall>y\<in>set (dropna series). y = c) \<longrightarrow> l = h"
    proof
      assume "\<exists>c. \<forall>y\<in>set (dropna series). y = c"
      then obtain c where c: "\<forall>y\<in>set (dropna series). y = c" by blast
      have "?lo = Some c" "?hi = Some c"
        by (rule quantile_const[OF _ _ False c]; simp)+
      with l h show "l = h" by simp
    qed
    show ?thesis
      unfolding cell l h
    proof (rule exI[of _ v], intro conjI allI impI)
      fix x assume "series ! i = Some x"
      then have "v = (min (max x l) h - l) / (if l < h then h - l else 1)" using v(5) by blast
      then show "\<exists>l' h'. Some l = Some l' \<and> Some h = Some h' \<and> l' \<le> h'
          \<and> v = (min (max x l') h' - l') / (if l' < h' then h' - l' else 1)"
        using lh by blast
    next
      assume "series ! i \<noteq> None" "Some l = Some h"
      then show "v = 0" using v(6) by blast
    next
      assume "series ! i \<noteq> None" "\<exists>c. \<forall>y\<in>set (dropna series). y = c"
      then show "v = 0" using v(6) const by blast
    next
      assume "series ! i = None"
      then show "v = 1/2" using v(4) by blast
    next
      show "fillna (1 / 2) (ndiv (nsub (clip (series ! i) (Some l) (Some h)) (Some l)) (rng_of (Some l) (Some h))) = Some v"
        by (rule v(1))
    next
      show "0 \<le> v" by (rule v(2))
    next
      show "v \<le> 1" by (rule v(3))
    qed
  qed
qed

theorem minmax_clamped_unit_interval_example:
  "(0::nat) < length [Some 7, None, Some (7::real)]
   \<and> (1::nat) < length [Some 7, None, Some (7::real)]
   \<and> [Some 7, None, Some (7::real)] ! 1 = None
   \<and> [Some 7, None, Some (7::real)] ! 0 = Some 7
   \<and> quantile [Some 7, None, Some 7] (1/100) = quantile [Some 7, None, Some 7] (99/100)
   \<and> set (dropna [Some 7, None, Some 7]) = {7}
   \<and> minmax_clamped [Some 7, None, Some 7] (1/100) (99/100) ! 0 = Some 0
   \<and> minmax_clamped [Some 7, None, Some 7] (1/100) (99/100) ! 1 = Some (1/2)
   \<and> minmax_clamped [Some 0, None, Some 100] (1/100) (99/100) ! 2 = Some 1"
proof -
  let ?S = "[Some 7, None, Some (7::real)]"
  let ?T = "[Some 0, None, Some (100::real)]"
  have q: "quantile ?S (1/100) = quantile ?S (99/100)"
    by (simp add: quantile_def)
  note S = minmax_clamped_unit_interval[of ?S, THEN conjunct2, THEN conjunct2, rule_format]
  have a0: "minmax_clamped ?S (1/100) (99/100) ! 0 = Some 0"
  proof -
    have "(0::nat) < length ?S" by simp
    from S[OF this] q show ?thesis by (elim exE conjE) simp
  qed
  have a1: "minmax_clamped ?S (1/100) (99/100) ! 1 = Some (1/2)"
  proof -
    have "(1::nat) < length ?S" by simp
    from S[OF this] show ?thesis by (elim exE conjE) simp
  qed
  have ql: "quantile ?T (1/100) = Some 1"
    by (simp add: quantile_def)
  have qh: "quantile ?T (99/100) = Some 99"
    by (simp add: quantile_def)
  note T = minmax_clamped_unit_interval[of ?T, THEN conjunct2, THEN conjunct2, rule_format]
  have a3: "minmax_clamped ?T (1/100) (99/100) ! 2 = Some 1"
  proof -
    have "(2::nat) < length ?T" by simp
    from T[OF this] show ?thesis by (elim exE conjE) (simp add: ql qh)
  qed
  show ?thesis using q a0 a1 a3 by simp
qed

section \<open>The distances are haversine distances\<close>

text \<open>
  The argument of the square roots lies in \<open>[0, 1]\<close> for all coordinates, so over the
  reals both distance computations are defined everywhere, and \<open>arctan2 (sqrt a) (sqrt (1 - a))\<close>
  is \<open>arcsin (sqrt a)\<close>: the program computes the haversine formula.
\<close>

lemma sin_half_squared: "(sin (x / 2))\<^sup>2 = (1 - cos x) / 2" for x :: real
  using cos_double_sin[of "x / 2"] by simp

lemma sin_squared_swap: "(sin ((x - y) / 2))\<^sup>2 = (sin ((y - x) / 2))\<^sup>2" for x y :: real
proof -
  have "(x - y) / 2 = - ((y - x) / 2)" by (simp add: field_simps)
  then have "sin ((x - y) / 2) = - sin ((y - x) / 2)" by (simp only: sin_minus)
  then show ?thesis by (simp only: power2_minus)
qed

lemma hav_bounds:
  fixes p1 p2 l :: real
  shows "0 \<le> (sin ((p2 - p1) / 2))\<^sup>2 + cos p1 * cos p2 * (sin (l / 2))\<^sup>2"
    and "(sin ((p2 - p1) / 2))\<^sup>2 + cos p1 * cos p2 * (sin (l / 2))\<^sup>2 \<le> 1"
proof -
  define a where "a = (sin ((p2 - p1) / 2))\<^sup>2 + cos p1 * cos p2 * (sin (l / 2))\<^sup>2"
  define s where "s = (sin (l / 2))\<^sup>2"
  have s0: "0 \<le> s" by (simp add: s_def)
  have s1: "s \<le> 1"
    using sin_cos_squared_add[of "l / 2"] zero_le_power2[of "cos (l / 2)"] unfolding s_def by linarith
  have cc: "cos p1 * cos p2 = (cos (p2 - p1) + cos (p1 + p2)) / 2"
    using cos_times_cos[of p1 p2] cos_minus[of "p2 - p1"] by (simp del: cos_minus)
  have a_s: "a = (1 - cos (p2 - p1)) / 2 + (cos (p2 - p1) + cos (p1 + p2)) / 2 * s"
    unfolding a_def s_def sin_half_squared[of "p2 - p1"] cc by (rule refl)
  have a2: "2 * a = 1 - (1 - s) * cos (p2 - p1) + s * cos (p1 + p2)"
    unfolding a_s by (simp add: field_simps)
  have c1: "- 1 \<le> cos (p2 - p1)" "cos (p2 - p1) \<le> 1" by simp_all
  have c2: "- 1 \<le> cos (p1 + p2)" "cos (p1 + p2) \<le> 1" by simp_all
  have m1: "(1 - s) * cos (p2 - p1) \<le> (1 - s) * 1"
    using s1 c1 by (intro mult_left_mono) auto
  have m2: "(1 - s) * (- 1) \<le> (1 - s) * cos (p2 - p1)"
    using s1 c1 by (intro mult_left_mono) auto
  have m3: "s * cos (p1 + p2) \<le> s * 1" using s0 c2 by (intro mult_left_mono) auto
  have m4: "s * (- 1) \<le> s * cos (p1 + p2)" using s0 c2 by (intro mult_left_mono) auto
  have "0 \<le> a" using a2 m1 m4 by simp
  moreover have "a \<le> 1" using a2 m2 m3 by simp
  ultimately show "0 \<le> (sin ((p2 - p1) / 2))\<^sup>2 + cos p1 * cos p2 * (sin (l / 2))\<^sup>2"
    and "(sin ((p2 - p1) / 2))\<^sup>2 + cos p1 * cos p2 * (sin (l / 2))\<^sup>2 \<le> 1"
    unfolding a_def by simp_all
qed

lemma arctan2_sqrt_arcsin:
  assumes "0 \<le> a" "a \<le> 1"
  shows "arctan2 (sqrt a) (sqrt (1 - a)) = arcsin (sqrt a)"
proof (cases "a = 1")
  case True
  then show ?thesis by (simp add: arctan2_def)
next
  case False
  then have lt: "a < 1" using assms by simp
  then have pos: "0 < sqrt (1 - a)" by simp
  have "sqrt a < 1" using lt by simp
  moreover have "- 1 < sqrt a"
  proof -
    have "0 \<le> sqrt a" using assms by simp
    then show ?thesis by linarith
  qed
  ultimately have "arcsin (sqrt a) = arctan (sqrt a / sqrt (1 - (sqrt a)\<^sup>2))"
    by (intro arcsin_arctan)
  also have "(sqrt a)\<^sup>2 = a" using assms by simp
  finally show ?thesis using pos by (simp add: arctan2_def)
qed

lemma haversine_entry:
  fixes p1 p2 l1 l2 :: real
  shows "2 * arctan2
        (sqrt ((sin ((p2 - p1) / 2))\<^sup>2 + cos p1 * cos p2 * (sin ((l2 - l1) / 2))\<^sup>2))
        (sqrt (1 - ((sin ((p2 - p1) / 2))\<^sup>2 + cos p1 * cos p2 * (sin ((l2 - l1) / 2))\<^sup>2)))
      = 2 * arcsin (sqrt ((sin ((p2 - p1) / 2))\<^sup>2 + cos p1 * cos p2 * (sin ((l2 - l1) / 2))\<^sup>2))"
  by (simp only: arctan2_sqrt_arcsin[OF hav_bounds[of p2 p1 "l2 - l1"]])

lemma radians_diff: "radians (x - y) = radians x - radians y"
  by (simp add: radians_def diff_divide_distrib algebra_simps)

lemma haversine_vec_formula:
  "haversine_vec la lo regs = map (\<lambda>r. haversine_formula la lo (region_lat r) (region_lon r)) regs"
  unfolding haversine_vec_def Let_def haversine_formula_def radians_diff haversine_entry
  by simp

lemma haversine_pair_formula:
  "haversine_pair (la1, lo1) (la2, lo2) = haversine_formula la1 lo1 la2 lo2"
proof -
  have "haversine_pair (la1, lo1) (la2, lo2)
      = 2 * 6371000 * arctan2
          (sqrt ((sin ((radians la2 - radians la1) / 2))\<^sup>2
             + cos (radians la1) * cos (radians la2) * (sin ((radians lo2 - radians lo1) / 2))\<^sup>2))
          (sqrt (1 - ((sin ((radians la2 - radians la1) / 2))\<^sup>2
             + cos (radians la1) * cos (radians la2) * (sin ((radians lo2 - radians lo1) / 2))\<^sup>2)))"
    unfolding haversine_pair_def Let_def fst_conv snd_conv
      sin_squared_swap[of "radians la1" "radians la2"] sin_squared_swap[of "radians lo1" "radians lo2"]
    by (rule refl)
  also have "\<dots> = haversine_formula la1 lo1 la2 lo2"
    unfolding haversine_formula_def
    using haversine_entry[of "radians la2" "radians la1" "radians lo2" "radians lo1"] by simp
  finally show ?thesis .
qed

section \<open>Region assignment: facts and claims C8 and C2\<close>

lemma argmin_from_props:
  "argmin_from xs i best bv = r \<Longrightarrow>
     (r = best \<and> (\<forall>x\<in>set xs. bv \<le> x)) \<or>
     (i \<le> r \<and> r < i + length xs \<and> xs ! (r - i) < bv
        \<and> (\<forall>k<length xs. xs ! (r - i) \<le> xs ! k) \<and> (\<forall>k<r - i. xs ! (r - i) < xs ! k))"
proof (induction xs arbitrary: i best bv)
  case Nil
  then show ?case by simp
next
  case (Cons x xs)
  show ?case
  proof (cases "x < bv")
    case True
    then have "argmin_from xs (i + 1) i x = r" using Cons.prems by simp
    from Cons.IH[OF this] show ?thesis
    proof
      assume a: "r = i \<and> (\<forall>y\<in>set xs. x \<le> y)"
      then have "\<forall>k<length (x # xs). (x # xs) ! 0 \<le> (x # xs) ! k"
        by (auto simp: nth_Cons')
      with a True show ?thesis by auto
    next
      assume a: "i + 1 \<le> r \<and> r < i + 1 + length xs \<and> xs ! (r - (i + 1)) < x
        \<and> (\<forall>k<length xs. xs ! (r - (i + 1)) \<le> xs ! k) \<and> (\<forall>k<r - (i + 1). xs ! (r - (i + 1)) < xs ! k)"
      then have e: "(x # xs) ! (r - i) = xs ! (r - (i + 1))" by (simp add: nth_Cons')
      have 1: "\<forall>k<length (x # xs). (x # xs) ! (r - i) \<le> (x # xs) ! k"
        unfolding e using a by (auto simp: nth_Cons')
      have 2: "\<forall>k<r - i. (x # xs) ! (r - i) < (x # xs) ! k"
        unfolding e using a by (auto simp: nth_Cons')
      have 3: "(x # xs) ! (r - i) < bv" unfolding e using a True by linarith
      show ?thesis using a 1 2 3 by auto
    qed
  next
    case False
    then have "argmin_from xs (i + 1) best bv = r" using Cons.prems by simp
    from Cons.IH[OF this] show ?thesis
    proof
      assume a: "r = best \<and> (\<forall>y\<in>set xs. bv \<le> y)"
      with False show ?thesis by auto
    next
      assume a: "i + 1 \<le> r \<and> r < i + 1 + length xs \<and> xs ! (r - (i + 1)) < bv
        \<and> (\<forall>k<length xs. xs ! (r - (i + 1)) \<le> xs ! k) \<and> (\<forall>k<r - (i + 1). xs ! (r - (i + 1)) < xs ! k)"
      then have e: "(x # xs) ! (r - i) = xs ! (r - (i + 1))" by (simp add: nth_Cons')
      have 1: "\<forall>k<length (x # xs). (x # xs) ! (r - i) \<le> (x # xs) ! k"
        unfolding e using a False by (auto simp: nth_Cons')
      have 2: "\<forall>k<r - i. (x # xs) ! (r - i) < (x # xs) ! k"
        unfolding e using a False by (auto simp: nth_Cons')
      have 3: "(x # xs) ! (r - i) < bv" unfolding e using a by linarith
      show ?thesis using a 1 2 3 by auto
    qed
  qed
qed

lemma argmin_Inr:
  assumes "argmin xs = Inr j"
  shows "j < length xs \<and> (\<forall>k<length xs. xs ! j \<le> xs ! k) \<and> (\<forall>k<j. xs ! j < xs ! k)"
proof (cases xs)
  case Nil
  with assms show ?thesis by (simp add: argmin_def)
next
  case (Cons x rest)
  with assms have r: "argmin_from rest 1 0 x = j" by (simp add: argmin_def)
  from argmin_from_props[OF r] show ?thesis
  proof
    assume "j = 0 \<and> (\<forall>y\<in>set rest. x \<le> y)"
    then show ?thesis unfolding Cons by (auto simp: nth_Cons')
  next
    assume a: "1 \<le> j \<and> j < 1 + length rest \<and> rest ! (j - 1) < x
        \<and> (\<forall>k<length rest. rest ! (j - 1) \<le> rest ! k) \<and> (\<forall>k<j - 1. rest ! (j - 1) < rest ! k)"
    then have e: "(x # rest) ! j = rest ! (j - 1)" by (simp add: nth_Cons')
    have 1: "\<forall>k<length (x # rest). (x # rest) ! j \<le> (x # rest) ! k"
      unfolding e using a by (auto simp: nth_Cons')
    have 2: "\<forall>k<j. (x # rest) ! j < (x # rest) ! k"
      unfolding e using a by (auto simp: nth_Cons')
    show ?thesis unfolding Cons using a 1 2 by auto
  qed
qed

lemma argmin_Inl: "argmin xs = Inl e \<Longrightarrow> xs = []"
  by (cases xs) (simp_all add: argmin_def)

lemma length_haversine_vec: "length (haversine_vec la lo regs) = length regs"
  by (simp add: haversine_vec_def)

lemma haversine_vec_Nil_iff: "haversine_vec la lo regs = [] \<longleftrightarrow> regs = []"
  by (simp add: haversine_vec_def)

lemma assign_loop_length:
  "assign_loop rows regs = Inr rds \<Longrightarrow> length rds = length rows"
proof (induction rows arbitrary: rds)
  case Nil
  then show ?case by simp
next
  case (Cons row rows)
  then show ?case
    by (auto simp: Let_def split: option.splits sum.splits)
qed

lemma assign_loop_Inl:
  "assign_loop rows regs = Inl e \<Longrightarrow> regs = []"
proof (induction rows)
  case Nil
  then show ?case by simp
next
  case (Cons row rows)
  then show ?case
    by (auto simp: Let_def haversine_vec_Nil_iff dest!: argmin_Inl split: option.splits sum.splits)
qed


lemma assign_loop_coords:
  "assign_loop rows regs = Inr rds \<Longrightarrow> i < length rows \<Longrightarrow>
   lat (rows ! i) = Some la \<Longrightarrow> lon (rows ! i) = Some lo \<Longrightarrow>
   \<exists>j. argmin (haversine_vec la lo regs) = Inr j
     \<and> rds ! i = (Some (region_name (regs ! j)), Some (haversine_vec la lo regs ! j))"
proof (induction rows arbitrary: rds i)
  case Nil
  then show ?case by simp
next
  case (Cons row rows)
  show ?case
  proof (cases i)
    case 0
    with Cons.prems show ?thesis
      by (auto simp: Let_def split: option.splits sum.splits)
  next
    case (Suc i')
    obtain rd rest where rds: "rds = rd # rest" and rest: "assign_loop rows regs = Inr rest"
      using Cons.prems(1) by (auto simp: Let_def split: option.splits sum.splits)
    from Cons.IH[OF rest, of i'] Cons.prems(2,3,4) Suc rds show ?thesis by simp
  qed
qed

lemma assign_Inr_cases:
  assumes "assign_region_if_missing hex_df scores_df = Inr out"
  shows "(list_all (\<lambda>row. region row \<noteq> None) hex_df \<and> out = hex_df) \<or>
         (\<not> list_all (\<lambda>row. region row \<noteq> None) hex_df \<and>
          (\<exists>rds. assign_loop hex_df scores_df = Inr rds \<and> length rds = length hex_df
              \<and> out = map2 fill_region hex_df rds))"
  using assms
  by (auto simp: assign_region_if_missing_def assign_loop_length split: if_splits sum.splits)

lemma assign_Inl:
  "assign_region_if_missing hex_df scores_df = Inl e \<Longrightarrow> scores_df = []"
  by (auto simp: assign_region_if_missing_def dest: assign_loop_Inl split: if_splits sum.splits)

lemma assign_length:
  "assign_region_if_missing hex_df scores_df = Inr out \<Longrightarrow> length out = length hex_df"
  by (auto dest!: assign_Inr_cases)

text \<open>
  Claim C8. Region assignment never changes a region tag that is present: whenever
  \<open>assign_region_if_missing\<close> returns, it returns as many rows as it got, and every row
  whose region was not missing has the same region afterwards, wherever the nearest
  centroid is. It raises only when the region table is empty.
\<close>

theorem assign_region_keeps_existing:
  "(\<forall>e. assign_region_if_missing hex_df scores_df = Inl e \<longrightarrow> scores_df = []) \<and>
   (\<forall>out. assign_region_if_missing hex_df scores_df = Inr out \<longrightarrow>
      length out = length hex_df \<and>
      (\<forall>i<length hex_df. region (hex_df ! i) \<noteq> None \<longrightarrow> region (out ! i) = region (hex_df ! i)))"
proof (intro conjI allI impI)
  fix e assume "assign_region_if_missing hex_df scores_df = Inl e"
  then show "scores_df = []" by (rule assign_Inl)
next
  fix out assume "assign_region_if_missing hex_df scores_df = Inr out"
  then show "length out = length hex_df" by (rule assign_length)
next
  fix out i
  assume out: "assign_region_if_missing hex_df scores_df = Inr out"
    and i: "i < length hex_df" and r: "region (hex_df ! i) \<noteq> None"
  from assign_Inr_cases[OF out] show "region (out ! i) = region (hex_df ! i)"
  proof
    assume "list_all (\<lambda>row. region row \<noteq> None) hex_df \<and> out = hex_df"
    then show ?thesis by simp
  next
    assume "\<not> list_all (\<lambda>row. region row \<noteq> None) hex_df \<and>
          (\<exists>rds. assign_loop hex_df scores_df = Inr rds \<and> length rds = length hex_df
              \<and> out = map2 fill_region hex_df rds)"
    then obtain rds where "length rds = length hex_df" "out = map2 fill_region hex_df rds"
      by blast
    with i r show ?thesis by (auto simp: fill_region_def)
  qed
qed

lemma haversine_vec_ex: "haversine_vec 0 0 ex_regions = [6371000 * pi, 0, 0]"
  by (simp add: haversine_vec_def ex_regions_def mk_region_def radians_def arctan2_def Let_def)

lemma argmin_ex: "argmin [6371000 * pi, 0, 0] = Inr 1"
  by (simp add: argmin_def)

lemma assign_ex:
  "assign_region_if_missing ex_hexes ex_regions =
     Inr [mk_hex 1 (Some 0) (Some 0) (Some ''Far'')\<lparr>dist_to_region_m := Some 0\<rparr>,
          mk_hex 2 (Some 0) (Some 0) (Some ''A'')\<lparr>dist_to_region_m := Some 0\<rparr>,
          mk_hex 3 None None None]"
  by (simp add: assign_region_if_missing_def ex_hexes_def mk_hex_def haversine_vec_ex argmin_ex fill_region_def)
     (simp add: ex_regions_def mk_region_def)

theorem assign_region_keeps_existing_witness:
  "(0::nat) < length ex_hexes \<and> region (ex_hexes ! 0) = Some ''Far''
   \<and> (\<exists>out. assign_region_if_missing ex_hexes ex_regions = Inr out
         \<and> length out = 3 \<and> region (out ! 0) = Some ''Far'' \<and> region (out ! 1) = Some ''A'')"
proof -
  let ?out = "[mk_hex 1 (Some 0) (Some 0) (Some ''Far'')\<lparr>dist_to_region_m := Some 0\<rparr>,
          mk_hex 2 (Some 0) (Some 0) (Some ''A'')\<lparr>dist_to_region_m := Some 0\<rparr>,
          mk_hex 3 None None None]"
  note th = assign_region_keeps_existing[of ex_hexes ex_regions, THEN conjunct2, THEN spec,
      THEN mp, OF assign_ex]
  have l: "(0::nat) < length ex_hexes" by (simp add: ex_hexes_def)
  have r: "region (ex_hexes ! 0) = Some ''Far''" by (simp add: ex_hexes_def mk_hex_def)
  then have r': "region (ex_hexes ! 0) \<noteq> None" by simp
  have "region (?out ! 0) = region (ex_hexes ! 0)"
    using th[THEN conjunct2, rule_format, OF l r'] .
  then have a: "region (?out ! 0) = Some ''Far''" using r by simp
  have b: "length ?out = 3" using th[THEN conjunct1] by (simp add: ex_hexes_def)
  have c: "region (?out ! 1) = Some ''A''" by (simp add: mk_hex_def)
  show ?thesis using l r a b c assign_ex by blast
qed

text \<open>
  The assignment in exact arithmetic. With a region table that is not empty, a hex row
  whose region is missing and whose coordinates are present gets the region of the first
  centroid at minimal haversine distance (\<open>haversine_vec\<close>, Earth radius 6371000 m): no
  centroid is nearer, every earlier centroid of the table is strictly farther, and that
  minimal distance is recorded as \<open>dist_to_region_m\<close>. This is what claim C5 says, and it
  holds of the algorithm over the reals. It does not hold of the program in doubles: for
  the hex at \<open>(8, 0)\<close> and the centroid at \<open>(-8, 180)\<close> the rounded argument of the
  square roots is \<open>1.0000000000000002\<close>, which the source does not clamp to \<open>1\<close>, the
  distance is NaN and \<^verbatim>\<open>np.argmin\<close> returns the index of the NaN.
\<close>

theorem nearest_region_assigned:
  assumes "scores_df \<noteq> []" and "i < length hex_df" and "region (hex_df ! i) = None"
    and "lat (hex_df ! i) = Some la" and "lon (hex_df ! i) = Some lo"
  shows "\<exists>out j. assign_region_if_missing hex_df scores_df = Inr out \<and> j < length scores_df
     \<and> region (out ! i) = Some (region_name (scores_df ! j))
     \<and> dist_to_region_m (out ! i) = Some (haversine_vec la lo scores_df ! j)
     \<and> (\<forall>k<length scores_df. haversine_vec la lo scores_df ! j \<le> haversine_vec la lo scores_df ! k)
     \<and> (\<forall>k<j. haversine_vec la lo scores_df ! j < haversine_vec la lo scores_df ! k)
     \<and> (\<forall>k<length scores_df. haversine_vec la lo scores_df ! k
            = haversine_formula la lo (region_lat (scores_df ! k)) (region_lon (scores_df ! k)))"
proof -
  have nall: "\<not> list_all (\<lambda>row. region row \<noteq> None) hex_df"
    using assms(2,3) by (auto simp: list_all_length)
  obtain rds where rds: "assign_loop hex_df scores_df = Inr rds"
    using assign_loop_Inl[of hex_df scores_df] assms(1)
    by (cases "assign_loop hex_df scores_df") auto
  have len: "length rds = length hex_df" using rds by (rule assign_loop_length)
  define out where "out = map2 fill_region hex_df rds"
  have res: "assign_region_if_missing hex_df scores_df = Inr out"
    using nall rds by (simp add: assign_region_if_missing_def out_def)
  from assign_loop_coords[OF rds assms(2,4,5)] obtain j where
    j: "argmin (haversine_vec la lo scores_df) = Inr j"
    and rd: "rds ! i = (Some (region_name (scores_df ! j)), Some (haversine_vec la lo scores_df ! j))"
    by blast
  have outi: "out ! i = fill_region (hex_df ! i) (rds ! i)"
    using assms(2) len by (simp add: out_def)
  from argmin_Inr[OF j] have
    jl: "j < length scores_df"
    and jmin: "\<forall>k<length scores_df. haversine_vec la lo scores_df ! j \<le> haversine_vec la lo scores_df ! k"
    and jfirst: "\<forall>k<j. haversine_vec la lo scores_df ! j < haversine_vec la lo scores_df ! k"
    by (simp_all add: length_haversine_vec)
  have r1: "region (out ! i) = Some (region_name (scores_df ! j))"
    unfolding outi rd using assms(3) by (simp add: fill_region_def)
  have r2: "dist_to_region_m (out ! i) = Some (haversine_vec la lo scores_df ! j)"
    unfolding outi rd by (simp add: fill_region_def)
  have form: "\<forall>k<length scores_df. haversine_vec la lo scores_df ! k
            = haversine_formula la lo (region_lat (scores_df ! k)) (region_lon (scores_df ! k))"
    by (simp add: haversine_vec_formula)
  show ?thesis using res jl r1 r2 jmin jfirst form by blast
qed

theorem nearest_region_assigned_example:
  "ex_regions \<noteq> [] \<and> (1::nat) < length ex_hexes \<and> region (ex_hexes ! 1) = None
   \<and> lat (ex_hexes ! 1) = Some 0 \<and> lon (ex_hexes ! 1) = Some 0
   \<and> haversine_vec 0 0 ex_regions = [6371000 * pi, 0, 0]
   \<and> (\<exists>out. assign_region_if_missing ex_hexes ex_regions = Inr out
         \<and> region (out ! 1) = Some ''A'' \<and> dist_to_region_m (out ! 1) = Some 0)"
proof -
  have h: "ex_regions \<noteq> []" "(1::nat) < length ex_hexes" "region (ex_hexes ! 1) = None"
    "lat (ex_hexes ! 1) = Some 0" "lon (ex_hexes ! 1) = Some 0"
    by (simp_all add: ex_regions_def ex_hexes_def mk_hex_def)
  from nearest_region_assigned[OF h] obtain out j where
    o: "assign_region_if_missing ex_hexes ex_regions = Inr out"
    and j: "j < length ex_regions"
    and r: "region (out ! 1) = Some (region_name (ex_regions ! j))"
    and d: "dist_to_region_m (out ! 1) = Some (haversine_vec 0 0 ex_regions ! j)"
    and m: "\<forall>k<length ex_regions. haversine_vec 0 0 ex_regions ! j \<le> haversine_vec 0 0 ex_regions ! k"
    and f: "\<forall>k<j. haversine_vec 0 0 ex_regions ! j < haversine_vec 0 0 ex_regions ! k"
    by blast
  have l3: "length ex_regions = 3" by (simp add: ex_regions_def)
  have j1: "j = 1"
  proof -
    have "j = 0 \<or> j = 1 \<or> j = 2" using j l3 by linarith
    moreover have "j \<noteq> 0"
    proof
      assume "j = 0"
      with m l3 have "haversine_vec 0 0 ex_regions ! 0 \<le> haversine_vec 0 0 ex_regions ! 1" by simp
      then show False using pi_gt_zero by (simp add: haversine_vec_ex)
    qed
    moreover have "j \<noteq> 2"
    proof
      assume "j = 2"
      with f have "haversine_vec 0 0 ex_regions ! 2 < haversine_vec 0 0 ex_regions ! 1" by simp
      then show False by (simp add: haversine_vec_ex)
    qed
    ultimately show ?thesis by blast
  qed
  have "region (out ! 1) = Some ''A''" using r unfolding j1 by (simp add: ex_regions_def mk_region_def)
  moreover have "dist_to_region_m (out ! 1) = Some 0" using d unfolding j1 by (simp add: haversine_vec_ex)
  ultimately show ?thesis using h o haversine_vec_ex by blast
qed





section \<open>Scoring a single hex: claim C1\<close>


lemma knn_smooth_few:
  "length (valid_rows 0 coords_arr) < 2 \<Longrightarrow> knn_smooth ap coords_arr vals k w = vals"
  by (simp add: knn_smooth_def Let_def)





section \<open>The writer: facts and claim C9\<close>

lemma build_by_hex_props:
  "build_by_hex fs i m = Inr bh \<Longrightarrow>
     (\<forall>f\<in>set fs. properties f \<noteq> None) \<and>
     (\<forall>k idx. bh k = Some idx \<longrightarrow>
        (m k = Some idx \<and> (\<forall>f\<in>set fs. p_hex_id (props_or_empty f) \<noteq> k)) \<or>
        (i \<le> idx \<and> idx < i + length fs \<and> p_hex_id (props_or_empty (fs ! (idx - i))) = k)) \<and>
     (\<forall>k. bh k = None \<longrightarrow> m k = None \<and> (\<forall>f\<in>set fs. p_hex_id (props_or_empty f) \<noteq> k))"
proof (induction fs arbitrary: i m)
  case Nil
  then show ?case by simp
next
  case (Cons f fs)
  from Cons.prems obtain p where p: "properties f = Some p"
    and rec: "build_by_hex fs (i + 1) (m(p_hex_id p \<mapsto> i)) = Inr bh"
    by (auto split: option.splits)
  have kf: "p_hex_id (props_or_empty f) = p_hex_id p" using p by (simp add: props_or_empty_def)
  note IH = Cons.IH[OF rec]
  have 1: "\<forall>g\<in>set (f # fs). properties g \<noteq> None" using IH p by simp
  have 2: "\<forall>k idx. bh k = Some idx \<longrightarrow>
        (m k = Some idx \<and> (\<forall>g\<in>set (f # fs). p_hex_id (props_or_empty g) \<noteq> k)) \<or>
        (i \<le> idx \<and> idx < i + length (f # fs) \<and> p_hex_id (props_or_empty ((f # fs) ! (idx - i))) = k)"
  proof (intro allI impI)
    fix k idx assume b: "bh k = Some idx"
    from IH b have "((m(p_hex_id p \<mapsto> i)) k = Some idx \<and> (\<forall>g\<in>set fs. p_hex_id (props_or_empty g) \<noteq> k)) \<or>
        (i + 1 \<le> idx \<and> idx < i + 1 + length fs \<and> p_hex_id (props_or_empty (fs ! (idx - (i + 1)))) = k)"
      by blast
    then show "(m k = Some idx \<and> (\<forall>g\<in>set (f # fs). p_hex_id (props_or_empty g) \<noteq> k)) \<or>
        (i \<le> idx \<and> idx < i + length (f # fs) \<and> p_hex_id (props_or_empty ((f # fs) ! (idx - i))) = k)"
    proof
      assume a: "(m(p_hex_id p \<mapsto> i)) k = Some idx \<and> (\<forall>g\<in>set fs. p_hex_id (props_or_empty g) \<noteq> k)"
      show ?thesis
      proof (cases "k = p_hex_id p")
        case True
        with a have "idx = i" by simp
        with True kf show ?thesis by simp
      next
        case False
        with a kf show ?thesis by simp
      qed
    next
      assume a: "i + 1 \<le> idx \<and> idx < i + 1 + length fs \<and> p_hex_id (props_or_empty (fs ! (idx - (i + 1)))) = k"
      then have "(f # fs) ! (idx - i) = fs ! (idx - (i + 1))" by (simp add: nth_Cons')
      with a show ?thesis by simp
    qed
  qed
  have 3: "\<forall>k. bh k = None \<longrightarrow> m k = None \<and> (\<forall>g\<in>set (f # fs). p_hex_id (props_or_empty g) \<noteq> k)"
  proof (intro allI impI)
    fix k assume b: "bh k = None"
    with IH have a: "(m(p_hex_id p \<mapsto> i)) k = None \<and> (\<forall>g\<in>set fs. p_hex_id (props_or_empty g) \<noteq> k)"
      by blast
    then have "k \<noteq> p_hex_id p" by (auto split: if_splits)
    with a kf show "m k = None \<and> (\<forall>g\<in>set (f # fs). p_hex_id (props_or_empty g) \<noteq> k)"
      by auto
  qed
  show ?case using 1 2 3 by blast
qed

lemma build_by_hex_Inl:
  "build_by_hex fs i m = Inl e \<Longrightarrow> \<exists>f\<in>set fs. properties f = None"
  by (induction fs arbitrary: i m) (auto split: option.splits)

lemma props_get_write_props:
  "k \<notin> set written_fields \<Longrightarrow> props_get (write_props row p) k = props_get p k"
  by (simp add: written_fields_def props_get_def write_props_def map_add_def)

lemma p_hex_id_write_props: "p_hex_id (write_props row p) = Some (hex_id row)"
  by (simp add: write_props_def)

text \<open>What the loop of the writer keeps, for a dictionary that points into the list.\<close>

lemma update_loop_frame:
  assumes "\<forall>h idx. by_hex (Some h) = Some idx \<longrightarrow>
             idx < length fs \<and> p_hex_id (props_or_empty (fs ! idx)) = Some h"
  shows "length (update_loop by_hex rows fs) = length fs \<and>
    (\<forall>i<length fs.
       geometry (update_loop by_hex rows fs ! i) = geometry (fs ! i)
       \<and> p_hex_id (props_or_empty (update_loop by_hex rows fs ! i)) = p_hex_id (props_or_empty (fs ! i))
       \<and> (\<forall>k. k \<notin> set written_fields \<longrightarrow>
             props_get (props_or_empty (update_loop by_hex rows fs ! i)) k
               = props_get (props_or_empty (fs ! i)) k)
       \<and> ((\<forall>row\<in>set rows. Some (hex_id row) \<noteq> p_hex_id (props_or_empty (fs ! i))) \<longrightarrow>
             update_loop by_hex rows fs ! i = fs ! i))"
  using assms
proof (induction rows arbitrary: fs)
  case Nil
  then show ?case by simp
next
  case (Cons row rows)
  show ?case
  proof (cases "by_hex (Some (hex_id row))")
    case None
    then have e: "update_loop by_hex (row # rows) fs = update_loop by_hex rows fs" by simp
    from Cons.IH[OF Cons.prems] show ?thesis unfolding e by auto
  next
    case (Some idx)
    define g where "g = (fs ! idx)\<lparr>properties := Some (write_props row (props_or_empty (fs ! idx)))\<rparr>"
    define fs1 where "fs1 = fs[idx := g]"
    have e: "update_loop by_hex (row # rows) fs = update_loop by_hex rows fs1"
      using Some by (simp add: fs1_def g_def)
    from Cons.prems Some have idx: "idx < length fs"
      and key: "p_hex_id (props_or_empty (fs ! idx)) = Some (hex_id row)" by blast+
    have len1: "length fs1 = length fs" by (simp add: fs1_def)
    have pg: "props_or_empty g = write_props row (props_or_empty (fs ! idx))"
      by (simp add: g_def props_or_empty_def)
    have gk: "p_hex_id (props_or_empty g) = p_hex_id (props_or_empty (fs ! idx))"
      unfolding pg using key by (simp add: p_hex_id_write_props)
    have gg: "geometry g = geometry (fs ! idx)" by (simp add: g_def)
    have nth1: "\<And>i. i < length fs \<Longrightarrow> fs1 ! i = (if i = idx then g else fs ! i)"
      by (simp add: fs1_def nth_list_update)
    have keys1: "\<And>i. i < length fs \<Longrightarrow>
        p_hex_id (props_or_empty (fs1 ! i)) = p_hex_id (props_or_empty (fs ! i))"
      using gk by (simp add: nth1)
    have ok1: "\<forall>h idx. by_hex (Some h) = Some idx \<longrightarrow>
             idx < length fs1 \<and> p_hex_id (props_or_empty (fs1 ! idx)) = Some h"
      using Cons.prems keys1 len1 by auto
    note IH = Cons.IH[OF ok1]
    have L: "length (update_loop by_hex rows fs1) = length fs" using IH len1 by simp
    have R: "\<forall>i<length fs.
       geometry (update_loop by_hex rows fs1 ! i) = geometry (fs ! i)
       \<and> p_hex_id (props_or_empty (update_loop by_hex rows fs1 ! i)) = p_hex_id (props_or_empty (fs ! i))
       \<and> (\<forall>k. k \<notin> set written_fields \<longrightarrow>
             props_get (props_or_empty (update_loop by_hex rows fs1 ! i)) k
               = props_get (props_or_empty (fs ! i)) k)
       \<and> ((\<forall>r\<in>set (row # rows). Some (hex_id r) \<noteq> p_hex_id (props_or_empty (fs ! i))) \<longrightarrow>
             update_loop by_hex rows fs1 ! i = fs ! i)"
    proof (intro allI impI)
      fix i assume i: "i < length fs"
      then have i1: "i < length fs1" using len1 by simp
      from IH i1 have a1: "geometry (update_loop by_hex rows fs1 ! i) = geometry (fs1 ! i)"
        and a2: "p_hex_id (props_or_empty (update_loop by_hex rows fs1 ! i)) = p_hex_id (props_or_empty (fs1 ! i))"
        and a3: "\<forall>k. k \<notin> set written_fields \<longrightarrow>
             props_get (props_or_empty (update_loop by_hex rows fs1 ! i)) k
               = props_get (props_or_empty (fs1 ! i)) k"
        and a4: "(\<forall>r\<in>set rows. Some (hex_id r) \<noteq> p_hex_id (props_or_empty (fs1 ! i))) \<longrightarrow>
             update_loop by_hex rows fs1 ! i = fs1 ! i"
        by blast+
      have b1: "geometry (fs1 ! i) = geometry (fs ! i)" using i gg by (simp add: nth1)
      have b3: "\<forall>k. k \<notin> set written_fields \<longrightarrow>
          props_get (props_or_empty (fs1 ! i)) k = props_get (props_or_empty (fs ! i)) k"
        using i pg by (simp add: nth1 props_get_write_props)
      have b4: "(\<forall>r\<in>set (row # rows). Some (hex_id r) \<noteq> p_hex_id (props_or_empty (fs ! i))) \<longrightarrow>
             update_loop by_hex rows fs1 ! i = fs ! i"
      proof
        assume n: "\<forall>r\<in>set (row # rows). Some (hex_id r) \<noteq> p_hex_id (props_or_empty (fs ! i))"
        then have "i \<noteq> idx" using key by auto
        then have "fs1 ! i = fs ! i" using i by (simp add: nth1)
        moreover have "\<forall>r\<in>set rows. Some (hex_id r) \<noteq> p_hex_id (props_or_empty (fs1 ! i))"
          using n keys1[OF i] by simp
        ultimately show "update_loop by_hex rows fs1 ! i = fs ! i" using a4 by simp
      qed
      show "geometry (update_loop by_hex rows fs1 ! i) = geometry (fs ! i)
       \<and> p_hex_id (props_or_empty (update_loop by_hex rows fs1 ! i)) = p_hex_id (props_or_empty (fs ! i))
       \<and> (\<forall>k. k \<notin> set written_fields \<longrightarrow>
             props_get (props_or_empty (update_loop by_hex rows fs1 ! i)) k
               = props_get (props_or_empty (fs ! i)) k)
       \<and> ((\<forall>r\<in>set (row # rows). Some (hex_id r) \<noteq> p_hex_id (props_or_empty (fs ! i))) \<longrightarrow>
             update_loop by_hex rows fs1 ! i = fs ! i)"
        using a1 a2 a3 b1 b3 b4 keys1[OF i] by simp
    qed
    show ?thesis unfolding e using L R by blast
  qed
qed

lemma update_loop_skip:
  "update_loop by_hex (filter (\<lambda>row. by_hex (Some (hex_id row)) \<noteq> None) rows) fs
     = update_loop by_hex rows fs"
  by (induction rows arbitrary: fs) (auto split: option.splits)

lemma build_by_hex_top:
  assumes "build_by_hex fs 0 Map.empty = Inr bh"
  shows "\<forall>f\<in>set fs. properties f \<noteq> None"
    and "\<forall>h idx. bh (Some h) = Some idx \<longrightarrow>
           idx < length fs \<and> p_hex_id (props_or_empty (fs ! idx)) = Some h"
    and "\<forall>h. bh (Some h) \<noteq> None \<longleftrightarrow> (\<exists>f\<in>set fs. p_hex_id (props_or_empty f) = Some h)"
proof -
  note P = build_by_hex_props[OF assms]
  show "\<forall>f\<in>set fs. properties f \<noteq> None" using P by blast
  show 2: "\<forall>h idx. bh (Some h) = Some idx \<longrightarrow>
           idx < length fs \<and> p_hex_id (props_or_empty (fs ! idx)) = Some h"
  proof (intro allI impI)
    fix h idx assume "bh (Some h) = Some idx"
    with P have "(Map.empty (Some h) = Some idx \<and> (\<forall>f\<in>set fs. p_hex_id (props_or_empty f) \<noteq> Some h)) \<or>
        (0 \<le> idx \<and> idx < 0 + length fs \<and> p_hex_id (props_or_empty (fs ! (idx - 0))) = Some h)"
      by blast
    then show "idx < length fs \<and> p_hex_id (props_or_empty (fs ! idx)) = Some h" by simp
  qed
  show "\<forall>h. bh (Some h) \<noteq> None \<longleftrightarrow> (\<exists>f\<in>set fs. p_hex_id (props_or_empty f) = Some h)"
  proof (intro allI iffI)
    fix h assume "bh (Some h) \<noteq> None"
    then obtain idx where "bh (Some h) = Some idx" by blast
    with 2 have "idx < length fs" "p_hex_id (props_or_empty (fs ! idx)) = Some h" by blast+
    then show "\<exists>f\<in>set fs. p_hex_id (props_or_empty f) = Some h" using nth_mem by blast
  next
    fix h assume a: "\<exists>f\<in>set fs. p_hex_id (props_or_empty f) = Some h"
    show "bh (Some h) \<noteq> None"
    proof
      assume "bh (Some h) = None"
      with P have "\<forall>f\<in>set fs. p_hex_id (props_or_empty f) \<noteq> Some h" by blast
      with a show False by blast
    qed
  qed
qed

text \<open>
  The writer on a frame that is not all numeric, as the frame of the pipeline is: the
  rows reach the loop with the identifiers of the frame. It raises only on a feature whose
  \<open>properties\<close> is null. When it returns, it returns the features it got, in number and
  order, each with its geometry: in every feature, each property key that is not one of
  the fourteen written fields has the value it had; a feature whose \<open>hex_id\<close> is the
  \<open>hex_id\<close> of no scored row is unchanged; and the scored rows whose \<open>hex_id\<close> no
  feature has can be left out without changing the result.
\<close>

theorem update_features_frame:
  "(\<forall>e. update_features False features scored_df = Inl e \<longrightarrow> (\<exists>f\<in>set features. properties f = None)) \<and>
   (\<forall>out. update_features False features scored_df = Inr out \<longrightarrow>
      length out = length features
      \<and> (\<forall>i<length features.
            geometry (out ! i) = geometry (features ! i)
            \<and> (\<forall>k. k \<notin> set written_fields \<longrightarrow>
                  props_get (props_or_empty (out ! i)) k = props_get (props_or_empty (features ! i)) k)
            \<and> ((\<forall>row\<in>set scored_df. Some (hex_id row) \<noteq> p_hex_id (props_or_empty (features ! i))) \<longrightarrow>
                  out ! i = features ! i))
      \<and> update_features False features
            (filter (\<lambda>row. \<exists>f\<in>set features. p_hex_id (props_or_empty f) = Some (hex_id row)) scored_df)
          = Inr out)"
proof (intro conjI allI impI)
  fix e assume "update_features False features scored_df = Inl e"
  then show "\<exists>f\<in>set features. properties f = None"
    by (auto simp: update_features_def dest: build_by_hex_Inl split: sum.splits)
next
  fix out assume o: "update_features False features scored_df = Inr out"
  then obtain bh where bh: "build_by_hex features 0 Map.empty = Inr bh"
    and out: "out = update_loop bh scored_df features"
    by (auto simp: update_features_def iterrows_def split: sum.splits)
  note F = update_loop_frame[OF build_by_hex_top(2)[OF bh], of scored_df]
  show "length out = length features" using F out by simp
  show "update_features False features
            (filter (\<lambda>row. \<exists>f\<in>set features. p_hex_id (props_or_empty f) = Some (hex_id row)) scored_df)
          = Inr out"
  proof -
    have "filter (\<lambda>row. \<exists>f\<in>set features. p_hex_id (props_or_empty f) = Some (hex_id row)) scored_df
        = filter (\<lambda>row. bh (Some (hex_id row)) \<noteq> None) scored_df"
      using build_by_hex_top(3)[OF bh] by (intro filter_cong) auto
    then have "update_features False features
            (filter (\<lambda>row. \<exists>f\<in>set features. p_hex_id (props_or_empty f) = Some (hex_id row)) scored_df)
        = Inr (update_loop bh (filter (\<lambda>row. bh (Some (hex_id row)) \<noteq> None) scored_df) features)"
      by (simp only: update_features_def bh sum.case iterrows_def if_False)
    also have "\<dots> = Inr (update_loop bh scored_df features)"
      by (simp only: update_loop_skip)
    finally show ?thesis using out by simp
  qed
  fix i assume i: "i < length features"
  from F i out show "geometry (out ! i) = geometry (features ! i)" by simp
  {
    fix k :: string assume "k \<notin> set written_fields"
    with F i out show "props_get (props_or_empty (out ! i)) k = props_get (props_or_empty (features ! i)) k"
      by simp
  }
  {
    assume "\<forall>row\<in>set scored_df. Some (hex_id row) \<noteq> p_hex_id (props_or_empty (features ! i))"
    with F i out show "out ! i = features ! i" by simp
  }
qed

lemma update_features_ex:
  "update_features False ex_features ex_scored =
     Inr [(ex_features ! 0)\<lparr>properties := Some (write_props (ex_scored ! 0) (props_or_empty (ex_features ! 0)))\<rparr>,
          ex_features ! 1]"
  by (simp add: update_features_def iterrows_def ex_features_def ex_scored_def mk_hex_def)

theorem update_features_frame_example:
  "(1::nat) < length ex_features \<and> (0::nat) < length ex_features
   \<and> ''name'' \<notin> set written_fields
   \<and> list_all (\<lambda>row. Some (hex_id row) \<noteq> p_hex_id (props_or_empty (ex_features ! 1))) ex_scored
   \<and> filter (\<lambda>row. list_ex (\<lambda>f. p_hex_id (props_or_empty f) = Some (hex_id row)) ex_features) ex_scored
        = [ex_scored ! 0]
   \<and> (\<exists>out. update_features False ex_features ex_scored = Inr out
         \<and> update_features False ex_features [ex_scored ! 0] = Inr out
         \<and> length out = 2 \<and> out ! 1 = ex_features ! 1
         \<and> props_get (props_or_empty (out ! 0)) ''name'' = Some (JStr ''one'')
         \<and> props_get (props_or_empty (out ! 0)) ''dc_score'' = Some (JNum (Some (1 / 2))))"
proof -
  let ?out = "[(ex_features ! 0)\<lparr>properties := Some (write_props (ex_scored ! 0) (props_or_empty (ex_features ! 0)))\<rparr>,
          ex_features ! 1]"
  note th = update_features_frame[of ex_features ex_scored, THEN conjunct2, THEN spec, THEN mp,
      OF update_features_ex]
  have l: "(1::nat) < length ex_features" "(0::nat) < length ex_features"
    by (simp_all add: ex_features_def)
  have n: "''name'' \<notin> set written_fields" by (simp add: written_fields_def)
  have m: "list_all (\<lambda>row. Some (hex_id row) \<noteq> p_hex_id (props_or_empty (ex_features ! 1))) ex_scored"
    by (simp add: ex_features_def ex_scored_def mk_hex_def props_or_empty_def)
  have f: "filter (\<lambda>row. list_ex (\<lambda>f. p_hex_id (props_or_empty f) = Some (hex_id row)) ex_features) ex_scored
        = [ex_scored ! 0]"
    by (simp add: ex_features_def ex_scored_def mk_hex_def props_or_empty_def)
  have f': "filter (\<lambda>row. \<exists>f\<in>set ex_features. p_hex_id (props_or_empty f) = Some (hex_id row)) ex_scored
        = [ex_scored ! 0]"
    using f by (simp add: list_ex_iff)
  have a: "length ?out = 2" using th[THEN conjunct1] by (simp add: ex_features_def)
  have b: "?out ! 1 = ex_features ! 1"
    using th[THEN conjunct2, THEN conjunct1, rule_format, OF l(1), THEN conjunct2, THEN conjunct2] m
    by (simp add: list_all_iff)
  have c: "props_get (props_or_empty (?out ! 0)) ''name'' = props_get (props_or_empty (ex_features ! 0)) ''name''"
    using th[THEN conjunct2, THEN conjunct1, rule_format, OF l(2), THEN conjunct2, THEN conjunct1,
        rule_format, OF n] .
  have c': "props_get (props_or_empty (?out ! 0)) ''name'' = Some (JStr ''one'')"
    unfolding c by (simp add: ex_features_def props_or_empty_def props_get_def)
  have d: "props_get (props_or_empty (?out ! 0)) ''dc_score'' = Some (JNum (Some (1 / 2)))"
    by (simp add: ex_features_def ex_scored_def mk_hex_def props_or_empty_def props_get_def write_props_def)
  have e: "update_features False ex_features [ex_scored ! 0] = Inr ?out"
    using th[THEN conjunct2, THEN conjunct2] unfolding f' .
  show ?thesis using l n m f update_features_ex e a b c' d by blast
qed

lemma to_float64_small: "\<bar>n\<bar> < 2 ^ 53 \<Longrightarrow> to_float64 n = n"
  by (simp add: to_float64_def)



section \<open>The whole pipeline: claims C3 and C10\<close>









lemma map_filter_Nil_iff:
  "List.map_filter f xs = [] \<longleftrightarrow> (\<forall>x\<in>set xs. f x = None)"
  by (induction xs) (auto simp: List.map_filter_simps split: option.splits)

lemma lat_lon_rows_Nil:
  "list_all (\<lambda>f. \<not> (p_hex_id (props_or_empty f) \<noteq> None \<and> p_lat (props_or_empty f) \<noteq> None
       \<and> p_lon (props_or_empty f) \<noteq> None)) features \<Longrightarrow> lat_lon_rows features = []"
  by (auto simp: lat_lon_rows_def map_filter_Nil_iff list_all_iff Let_def split: option.splits)

lemma region_rows_Nil:
  "list_all (\<lambda>f. \<not> (p_hex_id (props_or_empty f) \<noteq> None \<and> p_region (props_or_empty f) \<noteq> None))
     features \<Longrightarrow> region_rows features = []"
  by (auto simp: region_rows_def map_filter_Nil_iff list_all_iff Let_def split: option.splits)

text \<open>
  Claim C10. If no feature of the geometry collection has both a \<open>hex_id\<close> and a
  \<open>region\<close>, or none has a \<open>hex_id\<close>, a \<open>lat\<close> and a \<open>lon\<close>, the loader merges on
  \<open>hex_id\<close> with a frame that has no columns: it raises KeyError, and so does the
  pipeline, which returns no features to write.
\<close>

theorem empty_frame_merge_raises:
  assumes "list_all (\<lambda>f. \<not> (p_hex_id (props_or_empty f) \<noteq> None \<and> p_region (props_or_empty f) \<noteq> None))
             features
         \<or> list_all (\<lambda>f. \<not> (p_hex_id (props_or_empty f) \<noteq> None \<and> p_lat (props_or_empty f) \<noteq> None
               \<and> p_lon (props_or_empty f) \<noteq> None)) features"
  shows "load_base_data scores_csv hex_csv features = Inl (KeyError ''hex_id'')
     \<and> main ap scores_csv hex_csv features = Inl (KeyError ''hex_id'')"
proof -
  have "lat_lon_rows features = [] \<or> region_rows features = []"
    using assms lat_lon_rows_Nil region_rows_Nil by blast
  then have l: "load_base_data scores_csv hex_csv features = Inl (KeyError ''hex_id'')"
    by (auto simp: load_base_data_def Let_def)
  then show ?thesis by (simp add: main_def)
qed

theorem empty_frame_merge_raises_witness:
  "list_all (\<lambda>f. \<not> (p_hex_id (props_or_empty f) \<noteq> None \<and> p_region (props_or_empty f) \<noteq> None))
      [ex_features ! 1]
   \<and> main argsort_partition ex_regions ex_climate [ex_features ! 1] = Inl (KeyError ''hex_id'')
   \<and> list_all (\<lambda>f. \<not> (p_hex_id (props_or_empty f) \<noteq> None \<and> p_lat (props_or_empty f) \<noteq> None
               \<and> p_lon (props_or_empty f) \<noteq> None)) []
   \<and> main argsort_partition ex_regions ex_climate [] = Inl (KeyError ''hex_id'')"
proof -
  have a: "list_all (\<lambda>f. \<not> (p_hex_id (props_or_empty f) \<noteq> None \<and> p_region (props_or_empty f) \<noteq> None))
      [ex_features ! 1]"
    by (simp add: ex_features_def props_or_empty_def)
  have b: "list_all (\<lambda>f. \<not> (p_hex_id (props_or_empty f) \<noteq> None \<and> p_lat (props_or_empty f) \<noteq> None
               \<and> p_lon (props_or_empty f) \<noteq> None)) []"
    by simp
  from empty_frame_merge_raises[OF disjI1, OF a, of ex_regions ex_climate argsort_partition]
  have c: "main argsort_partition ex_regions ex_climate [ex_features ! 1] = Inl (KeyError ''hex_id'')"
    by blast
  from empty_frame_merge_raises[OF disjI2, OF b, of ex_regions ex_climate argsort_partition]
  have d: "main argsort_partition ex_regions ex_climate [] = Inl (KeyError ''hex_id'')"
    by blast
  show ?thesis using a b c d by blast
qed

section \<open>Spatial smoothing: facts and claim C7\<close>

lemma valid_rows_set:
  "(idx, la, lo) \<in> set (valid_rows i cs) \<longleftrightarrow>
     i \<le> idx \<and> idx < i + length cs \<and> cs ! (idx - i) = (Some la, Some lo)"
proof (induction cs arbitrary: i)
  case Nil
  then show ?case by simp
next
  case (Cons c cs)
  have IH: "(idx, la, lo) \<in> set (valid_rows (i + 1) cs) \<longleftrightarrow>
      i + 1 \<le> idx \<and> idx < i + 1 + length cs \<and> cs ! (idx - (i + 1)) = (Some la, Some lo)"
    by (rule Cons.IH)
  have shift: "idx \<noteq> i \<Longrightarrow>
      (i + 1 \<le> idx \<and> idx < i + 1 + length cs \<and> cs ! (idx - (i + 1)) = (Some la, Some lo))
      \<longleftrightarrow> (i \<le> idx \<and> idx < i + length (c # cs) \<and> (c # cs) ! (idx - i) = (Some la, Some lo))"
    by (auto simp: nth_Cons')
  obtain a b where c: "c = (a, b)" by (cases c) auto
  show ?case
  proof (cases "\<exists>x y. a = Some x \<and> b = Some y")
    case True
    then obtain x y where ab: "a = Some x" "b = Some y" by blast
    show ?thesis
    proof (cases "idx = i")
      case True
      then show ?thesis using IH unfolding c ab by auto
    next
      case False
      then have "(idx, la, lo) \<in> set (valid_rows i (c # cs))
          \<longleftrightarrow> (idx, la, lo) \<in> set (valid_rows (i + 1) cs)"
        unfolding c ab by simp
      then show ?thesis using IH shift[OF False] by simp
    qed
  next
    case False
    then have v: "valid_rows i (c # cs) = valid_rows (i + 1) cs"
      unfolding c by (cases a; cases b) simp_all
    show ?thesis
    proof (cases "idx = i")
      case True
      then show ?thesis using IH False unfolding v c by auto
    next
      case False
      then show ?thesis using IH shift[OF False] unfolding v by simp
    qed
  qed
qed

lemma valid_rows_lower: "x \<in> set (valid_rows i cs) \<Longrightarrow> i \<le> fst x"
  by (cases x) (simp add: valid_rows_set)

lemma valid_rows_distinct: "distinct (map fst (valid_rows i cs))"
proof (induction i cs rule: valid_rows.induct)
  case (2 i a b cs)
  have "i \<notin> fst ` set (valid_rows (i + 1) cs)"
    using valid_rows_lower[of _ "i + 1" cs] by fastforce
  with 2 show ?case by simp
qed simp_all

lemma valid_rows_nth:
  assumes "p < length (valid_rows 0 cs)"
  shows "fst (valid_rows 0 cs ! p) < length cs
    \<and> cs ! fst (valid_rows 0 cs ! p) = (Some (fst (snd (valid_rows 0 cs ! p))), Some (snd (snd (valid_rows 0 cs ! p))))"
proof -
  obtain idx la lo where e: "valid_rows 0 cs ! p = (idx, la, lo)" by (cases "valid_rows 0 cs ! p") auto
  then have "(idx, la, lo) \<in> set (valid_rows 0 cs)" using assms nth_mem by metis
  then show ?thesis unfolding e by (simp add: valid_rows_set)
qed

lemma valid_rows_find:
  assumes "i < length cs" and "cs ! i = (Some la, Some lo)"
  shows "\<exists>p<length (valid_rows 0 cs). valid_rows 0 cs ! p = (i, la, lo)"
proof -
  have "(i, la, lo) \<in> set (valid_rows 0 cs)" using assms by (simp add: valid_rows_set)
  then show ?thesis by (auto simp: in_set_conv_nth)
qed

lemma valid_rows_invalid:
  assumes "fst (cs ! i) = None \<or> snd (cs ! i) = None"
  shows "i \<notin> set (map fst (valid_rows 0 cs))"
proof
  assume "i \<in> set (map fst (valid_rows 0 cs))"
  then obtain la lo where "(i, la, lo) \<in> set (valid_rows 0 cs)" by auto
  then have "cs ! i = (Some la, Some lo)" by (simp add: valid_rows_set)
  with assms show False by auto
qed

lemma scatter_Cons:
  "scatter s (i # idx) (v # new) = scatter (s[i := v]) idx new"
  by (simp add: scatter_def)

lemma scatter_length: "length (scatter s idx new) = length s"
proof (induction idx arbitrary: s new)
  case Nil
  then show ?case by (simp add: scatter_def)
next
  case (Cons i idx)
  then show ?case by (cases new) (simp_all add: scatter_def scatter_Cons)
qed

lemma scatter_other:
  "j \<notin> set idx \<Longrightarrow> scatter s idx new ! j = s ! j"
proof (induction idx arbitrary: s new)
  case Nil
  then show ?case by (simp add: scatter_def)
next
  case (Cons i idx)
  show ?case
  proof (cases new)
    case Nil
    then show ?thesis by (simp add: scatter_def)
  next
    case (Cons v new')
    with Cons.IH[of "s[i := v]" new'] Cons.prems show ?thesis
      by (simp add: scatter_Cons)
  qed
qed

lemma scatter_nth:
  "distinct idx \<Longrightarrow> length new = length idx \<Longrightarrow> \<forall>j\<in>set idx. j < length s \<Longrightarrow> p < length idx \<Longrightarrow>
     scatter s idx new ! (idx ! p) = new ! p"
proof (induction idx arbitrary: s new p)
  case Nil
  then show ?case by simp
next
  case (Cons i idx)
  then obtain v new' where n: "new = v # new'" by (cases new) auto
  show ?case
  proof (cases p)
    case 0
    have "scatter s (i # idx) new ! i = (s[i := v]) ! i"
      unfolding n scatter_Cons using Cons.prems(1) by (simp add: scatter_other)
    then show ?thesis using 0 n Cons.prems(3) by simp
  next
    case (Suc p')
    have "scatter (s[i := v]) idx new' ! (idx ! p') = new' ! p'"
      using Cons.prems Suc n by (intro Cons.IH) auto
    then show ?thesis using Suc n by (simp add: scatter_Cons)
  qed
qed

lemma pairwise_dist_length: "length (pairwise_dist cv) = length cv"
  by (simp add: pairwise_dist_def Let_def)

lemma pairwise_dist_row_length: "p < length cv \<Longrightarrow> length (pairwise_dist cv ! p) = length cv"
  by (simp add: pairwise_dist_def Let_def)

lemma pairwise_dist_nth:
  "p < length cv \<Longrightarrow> q < length cv \<Longrightarrow>
     pairwise_dist cv ! p ! q = (if p = q then PInf else Fin (haversine_pair (cv ! p) (cv ! q)))"
  by (simp add: pairwise_dist_def Let_def)

lemma PInf_le_iff: "PInf \<le> x \<longleftrightarrow> x = PInf"
  by (cases x) simp_all

lemma argsort_partition_ok: "partition_ok argsort_partition"
  unfolding partition_ok_def
proof (intro allI impI conjI)
  fix row :: "xreal list" and kth
  assume k: "kth < length row"
  let ?p = "argsort_partition row kth"
  show "length ?p = length row" by (simp add: argsort_partition_def)
  show "distinct ?p" by (simp add: argsort_partition_def)
  show "set ?p = {0..<length row}" by (simp add: argsort_partition_def)
  have s: "sorted (map (\<lambda>i. row ! i) ?p)" by (simp add: argsort_partition_def)
  have l: "length ?p = length row" by (simp add: argsort_partition_def)
  {
    fix a assume a: "a < kth"
    have "map (\<lambda>i. row ! i) ?p ! a \<le> map (\<lambda>i. row ! i) ?p ! kth"
      using s a k l by (intro sorted_nth_mono) auto
    then show "row ! (?p ! a) \<le> row ! (?p ! kth)" using a k l by simp
  }
  {
    fix b assume b: "kth < b \<and> b < length row"
    have "map (\<lambda>i. row ! i) ?p ! kth \<le> map (\<lambda>i. row ! i) ?p ! b"
      using s b l by (intro sorted_nth_mono) auto
    then show "row ! (?p ! kth) \<le> row ! (?p ! b)" using b l by simp
  }
qed

lemma knn_index_props:
  assumes ok: "partition_ok ap" and n2: "2 \<le> length cv"
    and k1: "1 \<le> k_eff" and kn: "k_eff \<le> length cv - 1" and p: "p < length cv"
  shows "length (knn_index ap cv k_eff ! p) = k_eff"
    and "distinct (knn_index ap cv k_eff ! p)"
    and "\<forall>j\<in>set (knn_index ap cv k_eff ! p). j < length cv"
    and "p \<notin> set (knn_index ap cv k_eff ! p)"
    and "\<forall>a\<in>set (knn_index ap cv k_eff ! p). \<forall>b<length cv.
           b \<noteq> p \<and> b \<notin> set (knn_index ap cv k_eff ! p) \<longrightarrow>
           haversine_pair (cv ! p) (cv ! a) \<le> haversine_pair (cv ! p) (cv ! b)"
proof -
  define n where "n = length cv"
  define row where "row = pairwise_dist cv ! p"
  define kth where "kth = k_eff - 1"
  define perm where "perm = ap row kth"
  have rl: "length row = n" using p by (simp add: row_def n_def pairwise_dist_row_length)
  have kth: "kth < n" "kth + 1 = k_eff" "k_eff < n" using k1 kn n2 by (simp_all add: kth_def n_def)
  have nb: "knn_index ap cv k_eff ! p = take k_eff perm"
    using p by (simp add: knn_index_def pairwise_dist_length row_def perm_def kth_def)
  from ok kth(1) rl have
    pl: "length perm = n" and pd: "distinct perm" and ps: "set perm = {0..<n}"
    and lo: "\<forall>a<kth. row ! (perm ! a) \<le> row ! (perm ! kth)"
    and hi: "\<forall>b. kth < b \<and> b < n \<longrightarrow> row ! (perm ! kth) \<le> row ! (perm ! b)"
    unfolding partition_ok_def perm_def by metis+
  have rown: "\<And>q. q < n \<Longrightarrow> row ! q = (if p = q then PInf else Fin (haversine_pair (cv ! p) (cv ! q)))"
    using p by (simp add: row_def n_def pairwise_dist_nth)
  have permn: "\<And>c. c < n \<Longrightarrow> perm ! c < n"
    using ps pl nth_mem by fastforce
  have lo': "\<And>a. a < k_eff \<Longrightarrow> row ! (perm ! a) \<le> row ! (perm ! kth)"
  proof -
    fix a assume "a < k_eff"
    then have "a < kth \<or> a = kth" using kth(2) by linarith
    then show "row ! (perm ! a) \<le> row ! (perm ! kth)" using lo by auto
  qed
  show "length (knn_index ap cv k_eff ! p) = k_eff" unfolding nb using pl kth by simp
  show "distinct (knn_index ap cv k_eff ! p)" unfolding nb using pd by simp
  show "\<forall>j\<in>set (knn_index ap cv k_eff ! p). j < length cv"
    unfolding nb using ps set_take_subset[of k_eff perm] by (auto simp: n_def)
  show notin: "p \<notin> set (knn_index ap cv k_eff ! p)"
  proof
    assume "p \<in> set (knn_index ap cv k_eff ! p)"
    then obtain a where a: "a < k_eff" "perm ! a = p"
      unfolding nb using pl kth by (auto simp: in_set_conv_nth)
    have "row ! p = PInf" using rown[of p] p by (simp add: n_def)
    with lo'[OF a(1)] a(2) have k: "row ! (perm ! kth) = PInf" by (simp add: PInf_le_iff)
    have "row ! (perm ! kth) \<le> row ! (perm ! k_eff)" using hi kth by auto
    with k have "row ! (perm ! k_eff) = PInf" by (simp add: PInf_le_iff)
    then have "perm ! k_eff = p"
      using rown[OF permn[OF kth(3)]] by (auto split: if_splits)
    with a(2) have "perm ! k_eff = perm ! a" by simp
    then have "k_eff = a" using pd pl kth(3) a(1) by (simp add: nth_eq_iff_index_eq)
    with a(1) show False by simp
  qed
  show "\<forall>a\<in>set (knn_index ap cv k_eff ! p). \<forall>b<length cv.
           b \<noteq> p \<and> b \<notin> set (knn_index ap cv k_eff ! p) \<longrightarrow>
           haversine_pair (cv ! p) (cv ! a) \<le> haversine_pair (cv ! p) (cv ! b)"
  proof (intro ballI allI impI)
    fix a b assume a: "a \<in> set (knn_index ap cv k_eff ! p)"
      and b: "b < length cv" and bb: "b \<noteq> p \<and> b \<notin> set (knn_index ap cv k_eff ! p)"
    from a obtain a' where a': "a' < k_eff" "perm ! a' = a"
      unfolding nb using pl kth by (auto simp: in_set_conv_nth)
    have "b \<in> set perm" using ps b by (simp add: n_def)
    then obtain c where c: "c < n" "perm ! c = b" using pl by (auto simp: in_set_conv_nth)
    have "\<not> c < k_eff"
    proof
      assume "c < k_eff"
      then have "perm ! c \<in> set (take k_eff perm)"
        using pl c(1) by (auto simp: in_set_conv_nth)
      with bb c(2) show False unfolding nb by simp
    qed
    then have ck: "kth < c" using kth(2) by linarith
    have an: "a < n" using a'(2) permn[of a'] a'(1) kth(3) by auto
    have ap: "a \<noteq> p" using a notin by auto
    have "row ! a \<le> row ! (perm ! kth)" using lo'[OF a'(1)] a'(2) by simp
    also have "\<dots> \<le> row ! b" using hi ck c by auto
    finally have "row ! a \<le> row ! b" .
    then show "haversine_pair (cv ! p) (cv ! a) \<le> haversine_pair (cv ! p) (cv ! b)"
      using rown[OF an] rown[of b] b ap bb by (simp add: n_def split: if_splits)
  qed
qed

lemma length_knn_index: "length (knn_index ap cv k) = length cv"
  by (simp add: knn_index_def pairwise_dist_length)

lemma length_knn_smooth: "length (knn_smooth ap cs vals k w) = length vals"
  by (simp add: knn_smooth_def Let_def scatter_length)

lemma knn_smooth_invalid:
  assumes "fst (cs ! i) = None \<or> snd (cs ! i) = None"
  shows "knn_smooth ap cs vals k w ! i = vals ! i"
  using valid_rows_invalid[OF assms]
  by (simp add: knn_smooth_def Let_def scatter_other del: set_map)

lemma smoothing_pool_nth:
  assumes "2 \<le> length (valid_rows 0 cs)" and "p < length (valid_rows 0 cs)"
  shows "smoothing_pool ap cs k ! p =
     map (\<lambda>j. fst (valid_rows 0 cs ! j))
       (knn_index ap (map snd (valid_rows 0 cs)) (max 1 (min k (length (valid_rows 0 cs) - 1))) ! p)"
  using assms by (simp add: smoothing_pool_def Let_def length_knn_index)

lemma length_smoothing_pool:
  "2 \<le> length (valid_rows 0 cs) \<Longrightarrow> length (smoothing_pool ap cs k) = length (valid_rows 0 cs)"
  by (simp add: smoothing_pool_def Let_def length_knn_index)

lemma knn_smooth_valid:
  assumes ok: "partition_ok ap" and len: "length vals = length cs"
    and n2: "2 \<le> length (valid_rows 0 cs)" and p: "p < length (valid_rows 0 cs)"
  shows "knn_smooth ap cs vals k w ! fst (valid_rows 0 cs ! p) =
     nadd (nmul (Some w) (vals ! fst (valid_rows 0 cs ! p)))
          (nmul (Some (1 - w)) (nmean (map (\<lambda>j. vals ! j) (smoothing_pool ap cs k ! p))))"
proof -
  define valid where "valid = valid_rows 0 cs"
  define n where "n = length valid"
  define k_eff where "k_eff = max 1 (min k (n - 1))"
  define vals_valid where "vals_valid = map (\<lambda>v. vals ! fst v) valid"
  define knn_idx where "knn_idx = knn_index ap (map snd valid) k_eff"
  define means where "means = map (\<lambda>idx. nmean (map (\<lambda>j. vals_valid ! j) idx)) knn_idx"
  define new where "new = map2 (\<lambda>v m. nadd (nmul (Some w) v) (nmul (Some (1 - w)) m)) vals_valid means"
  have pn: "p < n" "2 \<le> n" using p n2 by (simp_all add: n_def valid_def)
  have ke: "1 \<le> k_eff" "k_eff \<le> length (map snd valid) - 1"
    using pn by (simp_all add: k_eff_def n_def)
  have res: "knn_smooth ap cs vals k w = scatter vals (map fst valid) new"
    unfolding new_def means_def knn_idx_def vals_valid_def k_eff_def n_def valid_def
    using n2 by (simp add: knn_smooth_def Let_def)
  have lk: "length knn_idx = n" by (simp add: knn_idx_def length_knn_index n_def)
  have ln: "length new = length (map fst valid)"
    by (simp add: new_def means_def vals_valid_def lk n_def)
  have inr: "\<forall>j\<in>set (map fst valid). j < length vals"
  proof
    fix j assume "j \<in> set (map fst valid)"
    then obtain q where "q < length valid" "j = fst (valid ! q)"
      by (auto simp: in_set_conv_nth)
    then show "j < length vals" using valid_rows_nth[of q cs] len by (simp add: valid_def)
  qed
  have d: "distinct (map fst valid)" by (simp add: valid_def valid_rows_distinct)
  have "scatter vals (map fst valid) new ! (map fst valid ! p) = new ! p"
    using d ln inr pn(1) by (intro scatter_nth) (simp_all add: n_def)
  then have 1: "knn_smooth ap cs vals k w ! fst (valid ! p) = new ! p"
    using res pn(1) by (simp add: n_def)
  have 2: "new ! p = nadd (nmul (Some w) (vals_valid ! p)) (nmul (Some (1 - w)) (means ! p))"
    using pn(1) by (simp add: new_def means_def vals_valid_def lk n_def)
  have 3: "vals_valid ! p = vals ! fst (valid ! p)" using pn(1) by (simp add: vals_valid_def n_def)
  have inb: "\<forall>j\<in>set (knn_idx ! p). j < n"
    using knn_index_props(3)[OF ok _ ke, of p] pn by (simp add: knn_idx_def n_def)
  have 4: "means ! p = nmean (map (\<lambda>j. vals_valid ! j) (knn_idx ! p))"
    using pn(1) lk by (simp add: means_def)
  have 5: "map (\<lambda>j. vals_valid ! j) (knn_idx ! p) = map (\<lambda>j. vals ! fst (valid ! j)) (knn_idx ! p)"
    using inb by (simp add: vals_valid_def n_def)
  have 6: "smoothing_pool ap cs k ! p = map (\<lambda>j. fst (valid ! j)) (knn_idx ! p)"
    using smoothing_pool_nth[OF n2 p, of ap k]
    by (simp add: valid_def knn_idx_def k_eff_def n_def)
  have 7: "map (\<lambda>j. vals ! j) (smoothing_pool ap cs k ! p) = map (\<lambda>j. vals ! fst (valid ! j)) (knn_idx ! p)"
    unfolding 6 by (simp add: comp_def)
  show ?thesis
    using 1 unfolding 2 3 4 5 7[symmetric] by (simp add: valid_def)
qed

lemma smoothing_pool_props:
  assumes ok: "partition_ok ap"
    and n2: "2 \<le> length (valid_rows 0 cs)" and p: "p < length (valid_rows 0 cs)"
  shows "length (smoothing_pool ap cs k ! p) = min k (length (valid_rows 0 cs) - 1) \<or> k = 0"
    and "length (smoothing_pool ap cs k ! p) = max 1 (min k (length (valid_rows 0 cs) - 1))"
    and "distinct (smoothing_pool ap cs k ! p)"
    and "fst (valid_rows 0 cs ! p) \<notin> set (smoothing_pool ap cs k ! p)"
    and "\<forall>j\<in>set (smoothing_pool ap cs k ! p). j < length cs \<and> fst (cs ! j) \<noteq> None \<and> snd (cs ! j) \<noteq> None"
    and "\<forall>q<length (valid_rows 0 cs). \<forall>r<length (valid_rows 0 cs).
           fst (valid_rows 0 cs ! q) \<in> set (smoothing_pool ap cs k ! p) \<and>
           r \<noteq> p \<and> fst (valid_rows 0 cs ! r) \<notin> set (smoothing_pool ap cs k ! p) \<longrightarrow>
           haversine_pair (snd (valid_rows 0 cs ! p)) (snd (valid_rows 0 cs ! q))
             \<le> haversine_pair (snd (valid_rows 0 cs ! p)) (snd (valid_rows 0 cs ! r))"
proof -
  define valid where "valid = valid_rows 0 cs"
  define n where "n = length valid"
  define k_eff where "k_eff = max 1 (min k (n - 1))"
  define nb where "nb = knn_index ap (map snd valid) k_eff ! p"
  have pn: "p < n" "2 \<le> n" using p n2 by (simp_all add: n_def valid_def)
  have ke: "1 \<le> k_eff" "k_eff \<le> length (map snd valid) - 1"
    using pn by (simp_all add: k_eff_def n_def)
  have lm: "2 \<le> length (map snd valid)" "p < length (map snd valid)" using pn by (simp_all add: n_def)
  note P = knn_index_props[OF ok lm(1) ke lm(2), folded nb_def]
  have pool: "smoothing_pool ap cs k ! p = map (\<lambda>j. fst (valid ! j)) nb"
    using smoothing_pool_nth[OF n2 p, of ap k] by (simp add: valid_def nb_def k_eff_def n_def)
  have inj: "inj_on (\<lambda>j. fst (valid ! j)) {0..<n}"
  proof (rule inj_onI)
    fix x y assume xy: "x \<in> {0..<n}" "y \<in> {0..<n}" "fst (valid ! x) = fst (valid ! y)"
    have d: "distinct (map fst valid)" by (simp add: valid_def valid_rows_distinct)
    show "x = y" using nth_eq_iff_index_eq[OF d, of x y] xy by (simp add: n_def)
  qed
  have nbsub: "set nb \<subseteq> {0..<n}" using P(3) by (auto simp: n_def)
  show l: "length (smoothing_pool ap cs k ! p) = max 1 (min k (length (valid_rows 0 cs) - 1))"
    unfolding pool using P(1) by (simp add: k_eff_def n_def valid_def)
  show "length (smoothing_pool ap cs k ! p) = min k (length (valid_rows 0 cs) - 1) \<or> k = 0"
    unfolding l using n2 by (cases k) auto
  show "distinct (smoothing_pool ap cs k ! p)"
    unfolding pool using P(2) inj nbsub by (simp add: distinct_map inj_on_subset)
  have mem: "\<And>q. q < n \<Longrightarrow> fst (valid ! q) \<in> set (map (\<lambda>j. fst (valid ! j)) nb) \<longleftrightarrow> q \<in> set nb"
  proof -
    fix q assume q: "q < n"
    show "fst (valid ! q) \<in> set (map (\<lambda>j. fst (valid ! j)) nb) \<longleftrightarrow> q \<in> set nb"
    proof
      assume "fst (valid ! q) \<in> set (map (\<lambda>j. fst (valid ! j)) nb)"
      then obtain j where j: "j \<in> set nb" "fst (valid ! j) = fst (valid ! q)" by auto
      then have "j = q" using inj nbsub q by (auto dest: inj_onD)
      with j show "q \<in> set nb" by simp
    qed auto
  qed
  show "fst (valid_rows 0 cs ! p) \<notin> set (smoothing_pool ap cs k ! p)"
    unfolding pool using mem[OF pn(1)] P(4) by (simp add: valid_def)
  show "\<forall>j\<in>set (smoothing_pool ap cs k ! p). j < length cs \<and> fst (cs ! j) \<noteq> None \<and> snd (cs ! j) \<noteq> None"
  proof
    fix j assume "j \<in> set (smoothing_pool ap cs k ! p)"
    then obtain q where q: "q \<in> set nb" "j = fst (valid ! q)" unfolding pool by auto
    then have "q < length (valid_rows 0 cs)" using nbsub by (auto simp: n_def valid_def)
    from valid_rows_nth[OF this] q(2)
    show "j < length cs \<and> fst (cs ! j) \<noteq> None \<and> snd (cs ! j) \<noteq> None"
      by (simp add: valid_def)
  qed
  show "\<forall>q<length (valid_rows 0 cs). \<forall>r<length (valid_rows 0 cs).
           fst (valid_rows 0 cs ! q) \<in> set (smoothing_pool ap cs k ! p) \<and>
           r \<noteq> p \<and> fst (valid_rows 0 cs ! r) \<notin> set (smoothing_pool ap cs k ! p) \<longrightarrow>
           haversine_pair (snd (valid_rows 0 cs ! p)) (snd (valid_rows 0 cs ! q))
             \<le> haversine_pair (snd (valid_rows 0 cs ! p)) (snd (valid_rows 0 cs ! r))"
  proof (intro allI impI)
    fix q r assume q: "q < length (valid_rows 0 cs)" and r: "r < length (valid_rows 0 cs)"
      and h: "fst (valid_rows 0 cs ! q) \<in> set (smoothing_pool ap cs k ! p) \<and>
           r \<noteq> p \<and> fst (valid_rows 0 cs ! r) \<notin> set (smoothing_pool ap cs k ! p)"
    have qn: "q < n" and rn: "r < n" using q r by (simp_all add: n_def valid_def)
    have "q \<in> set nb" using h mem[OF qn] by (simp add: pool valid_def)
    moreover have "r \<notin> set nb" using h mem[OF rn] by (simp add: pool valid_def)
    ultimately have "haversine_pair (map snd valid ! p) (map snd valid ! q)
        \<le> haversine_pair (map snd valid ! p) (map snd valid ! r)"
      using P(5) rn h by (simp add: n_def)
    then show "haversine_pair (snd (valid_rows 0 cs ! p)) (snd (valid_rows 0 cs ! q))
             \<le> haversine_pair (snd (valid_rows 0 cs ! p)) (snd (valid_rows 0 cs ! r))"
      using pn(1) qn rn by (simp add: n_def valid_def)
  qed
qed

lemma length_valid_rows_filter:
  "length (valid_rows i cs) = length (filter (\<lambda>c. fst c \<noteq> None \<and> snd c \<noteq> None) cs)"
  by (induction i cs rule: valid_rows.induct) auto

lemma valid_count_hexes:
  "length (valid_rows 0 (map (\<lambda>row. (lat row, lon row)) hex_df))
     = length (filter (\<lambda>row. lat row \<noteq> None \<and> lon row \<noteq> None) hex_df)"
  by (simp add: length_valid_rows_filter filter_map comp_def)

lemma length_compute_hex_scores: "length (compute_hex_scores ap hex_df) = length hex_df"
  by (simp add: compute_hex_scores_def Let_def)

lemma compute_hex_scores_columns:
  "\<exists>dc. length dc = length hex_df
     \<and> map dc_score_hex (compute_hex_scores ap hex_df) = dc
     \<and> map dc_score_hex_smooth (compute_hex_scores ap hex_df)
          = knn_smooth ap (map (\<lambda>row. (lat row, lon row)) hex_df) dc SMOOTH_K SMOOTH_BLEND"
proof -
  define n where "n = length hex_df"
  define tn where "tn = minmax_clamped (map local_temp_c hex_df) (1 / 100) (99 / 100)"
  define tc where "tc = map (\<lambda>t. nsub (Some 1) t) tn"
  define en where "en = minmax_clamped (map elevation_m hex_df) (1 / 100) (99 / 100)"
  define sust where "sust = map (\<lambda>i. nadd (nadd (sustainability (hex_df ! i))
                                      (nmul (tc ! i) (Some TEMP_WEIGHT)))
                                (nmul (en ! i) (Some ELEV_WEIGHT))) [0..<n]"
  define prof where "prof = map profitability hex_df"
  define dc where "dc = map (\<lambda>i. nadd (nmul (Some (6 / 10)) (sust ! i))
                                (nmul (Some (4 / 10)) (prof ! i))) [0..<n]"
  define coords where "coords = map (\<lambda>row. (lat row, lon row)) hex_df"
  define sm where "sm = knn_smooth ap coords dc SMOOTH_K SMOOTH_BLEND"
  have out: "compute_hex_scores ap hex_df = map (\<lambda>i. (hex_df ! i)\<lparr>
             temp_norm := tn ! i,
             temp_cool_score := tc ! i,
             elev_norm := en ! i,
             sustainability_hex := sust ! i,
             profitability_hex := prof ! i,
             dc_score_hex := dc ! i,
             dc_score_hex_smooth := sm ! i\<rparr>) [0..<n]"
    unfolding sm_def coords_def dc_def prof_def sust_def en_def tc_def tn_def n_def
    by (simp only: compute_hex_scores_def Let_def)
  have ldc: "length dc = n" by (simp add: dc_def)
  have lsm: "length sm = n" by (simp add: sm_def length_knn_smooth ldc)
  have 1: "map dc_score_hex (compute_hex_scores ap hex_df) = map (\<lambda>i. dc ! i) [0..<length dc]"
    unfolding out ldc by simp
  have 2: "map dc_score_hex_smooth (compute_hex_scores ap hex_df) = map (\<lambda>i. sm ! i) [0..<length sm]"
    unfolding out lsm by simp
  show ?thesis
    using 1 2 ldc unfolding map_nth by (auto simp: sm_def coords_def n_def)
qed

lemma compute_hex_scores_smooth:
  "map dc_score_hex_smooth (compute_hex_scores ap hex_df)
     = knn_smooth ap (map (\<lambda>row. (lat row, lon row)) hex_df)
         (map dc_score_hex (compute_hex_scores ap hex_df)) SMOOTH_K SMOOTH_BLEND"
  using compute_hex_scores_columns[of hex_df ap] by auto

lemma smooth_nth:
  assumes "i < length hex_df"
  shows "dc_score_hex_smooth (compute_hex_scores ap hex_df ! i)
     = knn_smooth ap (map (\<lambda>row. (lat row, lon row)) hex_df)
         (map dc_score_hex (compute_hex_scores ap hex_df)) SMOOTH_K SMOOTH_BLEND ! i"
proof -
  have "dc_score_hex_smooth (compute_hex_scores ap hex_df ! i)
      = map dc_score_hex_smooth (compute_hex_scores ap hex_df) ! i"
    using assms by (simp add: length_compute_hex_scores)
  then show ?thesis by (simp only: compute_hex_scores_smooth)
qed

lemma ex_merged_dc:
  "map dc_score_hex (compute_hex_scores ap ex_merged) = [Some (14 / 25), Some (4 / 5), Some (8 / 25)]"
proof -
  have u: "[0..<3] = [0, 1, 2]" by (simp add: upt_rec)
  have m: "minmax_clamped [None, None, None] (1 / 100) (99 / 100) = [Some (1/2), Some (1/2), Some (1/2)]"
    by (simp add: minmax_clamped_def quantile_def rng_of_def nsub_def ndiv_def)
  show ?thesis
    by (simp add: compute_hex_scores_def Let_def ex_merged_def mk_hex_def u m
        nadd_def nsub_def nmul_def TEMP_WEIGHT_def ELEV_WEIGHT_def)
qed

lemma ex_merged_facts:
  "length ex_merged = 3"
  "lat (ex_merged ! 0) = Some 0" "lon (ex_merged ! 0) = Some 0"
  "lat (ex_merged ! 1) = None"
  "lat (ex_merged ! 2) = Some 0" "lon (ex_merged ! 2) = Some 0"
  "length (filter (\<lambda>row. lat row \<noteq> None \<and> lon row \<noteq> None) ex_merged) = 2"
  by (simp_all add: ex_merged_def mk_hex_def)

lemma ex_merged_pool:
  "smoothing_pool argsort_partition (map (\<lambda>row. (lat row, lon row)) ex_merged) SMOOTH_K = [[2], [0]]"
  by (simp add: smoothing_pool_def knn_index_def pairwise_dist_def haversine_pair_def radians_def
      arctan2_def Let_def argsort_partition_def ex_merged_def mk_hex_def SMOOTH_K_def)

text \<open>
  Claim C7. Let \<^verbatim>\<open>argpartition\<close> meet its contract. A hex with a null \<open>lat\<close> or \<open>lon\<close>
  is in the smoothing pool of no hex, and its \<open>dc_score_hex_smooth\<close> is its
  \<open>dc_score_hex\<close>; and when fewer than two hexes have both coordinates, there is no pool
  and the \<open>dc_score_hex_smooth\<close> of every hex is its \<open>dc_score_hex\<close>.
\<close>

theorem null_coords_left_out_of_smoothing:
  assumes "partition_ok ap"
  shows "(\<forall>i<length hex_df. lat (hex_df ! i) = None \<or> lon (hex_df ! i) = None \<longrightarrow>
            dc_score_hex_smooth (compute_hex_scores ap hex_df ! i)
              = dc_score_hex (compute_hex_scores ap hex_df ! i)
            \<and> (\<forall>nb\<in>set (smoothing_pool ap (map (\<lambda>row. (lat row, lon row)) hex_df) SMOOTH_K).
                  i \<notin> set nb))
     \<and> (length (filter (\<lambda>row. lat row \<noteq> None \<and> lon row \<noteq> None) hex_df) < 2 \<longrightarrow>
            smoothing_pool ap (map (\<lambda>row. (lat row, lon row)) hex_df) SMOOTH_K = []
            \<and> (\<forall>i<length hex_df. dc_score_hex_smooth (compute_hex_scores ap hex_df ! i)
                   = dc_score_hex (compute_hex_scores ap hex_df ! i)))"
proof (intro conjI allI impI)
  let ?cs = "map (\<lambda>row. (lat row, lon row)) hex_df"
  let ?out = "compute_hex_scores ap hex_df"
  {
    fix i assume i: "i < length hex_df" and nul: "lat (hex_df ! i) = None \<or> lon (hex_df ! i) = None"
    have inv: "fst (?cs ! i) = None \<or> snd (?cs ! i) = None" using i nul by simp
    show "dc_score_hex_smooth (?out ! i) = dc_score_hex (?out ! i)"
      unfolding smooth_nth[OF i] knn_smooth_invalid[OF inv]
      using i by (simp add: length_compute_hex_scores)
    show "\<forall>nb\<in>set (smoothing_pool ap ?cs SMOOTH_K). i \<notin> set nb"
    proof
      fix nb assume nb: "nb \<in> set (smoothing_pool ap ?cs SMOOTH_K)"
      show "i \<notin> set nb"
      proof (cases "2 \<le> length (valid_rows 0 ?cs)")
        case False
        then show ?thesis using nb by (simp add: smoothing_pool_def Let_def)
      next
        case True
        from nb obtain p where p: "p < length (smoothing_pool ap ?cs SMOOTH_K)"
          "nb = smoothing_pool ap ?cs SMOOTH_K ! p" by (auto simp: in_set_conv_nth)
        then have "p < length (valid_rows 0 ?cs)" using True by (simp add: length_smoothing_pool)
        note Q = smoothing_pool_props(5)[OF assms True this, of SMOOTH_K, folded p(2)]
        show ?thesis
        proof
          assume "i \<in> set nb"
          with Q have "fst (?cs ! i) \<noteq> None \<and> snd (?cs ! i) \<noteq> None" by blast
          with inv show False by blast
        qed
      qed
    qed
  }
  {
    assume few: "length (filter (\<lambda>row. lat row \<noteq> None \<and> lon row \<noteq> None) hex_df) < 2"
    then have few': "length (valid_rows 0 ?cs) < 2" by (simp only: valid_count_hexes)
    then show "smoothing_pool ap ?cs SMOOTH_K = []" by (simp add: smoothing_pool_def Let_def)
    fix i assume i: "i < length hex_df"
    show "dc_score_hex_smooth (?out ! i) = dc_score_hex (?out ! i)"
      unfolding smooth_nth[OF i] knn_smooth_few[OF few']
      using i by (simp add: length_compute_hex_scores)
  }
qed

theorem null_coords_left_out_of_smoothing_witness:
  "partition_ok argsort_partition
   \<and> (1::nat) < length ex_merged \<and> lat (ex_merged ! 1) = None
   \<and> dc_score_hex_smooth (compute_hex_scores argsort_partition ex_merged ! 1) = Some (4 / 5)
   \<and> smoothing_pool argsort_partition (map (\<lambda>row. (lat row, lon row)) ex_merged) SMOOTH_K = [[2], [0]]
   \<and> length (filter (\<lambda>row. lat row \<noteq> None \<and> lon row \<noteq> None) [ex_merged ! 1]) < 2
   \<and> dc_score_hex_smooth (compute_hex_scores argsort_partition [ex_merged ! 1] ! 0)
        = dc_score_hex (compute_hex_scores argsort_partition [ex_merged ! 1] ! 0)"
proof -
  note th = null_coords_left_out_of_smoothing[OF argsort_partition_ok]
  have l: "(1::nat) < length ex_merged" by (simp add: ex_merged_facts)
  have n: "lat (ex_merged ! 1) = None \<or> lon (ex_merged ! 1) = None" using ex_merged_facts(4) by blast
  from th[of ex_merged, THEN conjunct1, rule_format, OF l n, THEN conjunct1]
  have "dc_score_hex_smooth (compute_hex_scores argsort_partition ex_merged ! 1)
      = dc_score_hex (compute_hex_scores argsort_partition ex_merged ! 1)" .
  also have "\<dots> = map dc_score_hex (compute_hex_scores argsort_partition ex_merged) ! 1"
    using l by (simp add: length_compute_hex_scores)
  also have "\<dots> = Some (4 / 5)" unfolding ex_merged_dc by simp
  finally have a: "dc_score_hex_smooth (compute_hex_scores argsort_partition ex_merged ! 1) = Some (4 / 5)" .
  have "length (filter (\<lambda>row. lat row \<noteq> None \<and> lon row \<noteq> None) [ex_merged ! 1]) \<le> length [ex_merged ! 1]"
    by (rule length_filter_le)
  then have f: "length (filter (\<lambda>row. lat row \<noteq> None \<and> lon row \<noteq> None) [ex_merged ! 1]) < 2" by simp
  have z: "(0::nat) < length [ex_merged ! 1]" by simp
  from th[of "[ex_merged ! 1]", THEN conjunct2, rule_format, OF f, THEN conjunct2, rule_format, OF z]
  have b: "dc_score_hex_smooth (compute_hex_scores argsort_partition [ex_merged ! 1] ! 0)
        = dc_score_hex (compute_hex_scores argsort_partition [ex_merged ! 1] ! 0)" .
  show ?thesis
    using argsort_partition_ok l ex_merged_facts(4) a ex_merged_pool f b by blast
qed

text \<open>
  The smoothing in exact arithmetic. Let \<^verbatim>\<open>argpartition\<close> meet its contract and let at
  least two hexes have both coordinates. Then every hex \<open>i\<close> with coordinates \<open>(la, lo)\<close>
  has a pool \<open>nb\<close> of \<open>min 20 (valid - 1)\<close> distinct other hexes with coordinates,
  nearest under the haversine distance (no valid hex outside the pool, other than \<open>i\<close>,
  is nearer to \<open>i\<close> than a hex of the pool), and its \<open>dc_score_hex_smooth\<close> is \<open>0.25\<close>
  times its own \<open>dc_score_hex\<close> plus \<open>0.75\<close> times the mean \<open>dc_score_hex\<close> of the pool.
  This is what claim C4 says, and it holds of the algorithm over the reals. It does not
  hold of the program in doubles: the distance between the hexes at \<open>(8, 0)\<close> and
  \<open>(-8, 180)\<close> is NaN, which \<^verbatim>\<open>argpartition\<close> orders after the infinity of the
  diagonal, so that each of the two hexes is its own neighbour.
\<close>

theorem knn_smoothing_blend:
  assumes "partition_ok ap"
    and "2 \<le> length (filter (\<lambda>row. lat row \<noteq> None \<and> lon row \<noteq> None) hex_df)"
    and "i < length hex_df" and "lat (hex_df ! i) = Some la" and "lon (hex_df ! i) = Some lo"
  shows "\<exists>p nb. p < length (valid_rows 0 (map (\<lambda>row. (lat row, lon row)) hex_df))
     \<and> valid_rows 0 (map (\<lambda>row. (lat row, lon row)) hex_df) ! p = (i, la, lo)
     \<and> smoothing_pool ap (map (\<lambda>row. (lat row, lon row)) hex_df) SMOOTH_K ! p = nb
     \<and> length nb = min 20 (length (filter (\<lambda>row. lat row \<noteq> None \<and> lon row \<noteq> None) hex_df) - 1)
     \<and> distinct nb \<and> i \<notin> set nb
     \<and> (\<forall>j\<in>set nb. j < length hex_df \<and> lat (hex_df ! j) \<noteq> None \<and> lon (hex_df ! j) \<noteq> None)
     \<and> (\<forall>j\<in>set nb. \<forall>r<length hex_df. \<forall>la1 lo1 la2 lo2.
           lat (hex_df ! j) = Some la1 \<and> lon (hex_df ! j) = Some lo1
           \<and> lat (hex_df ! r) = Some la2 \<and> lon (hex_df ! r) = Some lo2
           \<and> r \<noteq> i \<and> r \<notin> set nb \<longrightarrow>
           haversine_pair (la, lo) (la1, lo1) \<le> haversine_pair (la, lo) (la2, lo2))
     \<and> dc_score_hex_smooth (compute_hex_scores ap hex_df ! i)
         = nadd (nmul (Some (25 / 100)) (dc_score_hex (compute_hex_scores ap hex_df ! i)))
                (nmul (Some (75 / 100))
                   (nmean (map (\<lambda>j. dc_score_hex (compute_hex_scores ap hex_df ! j)) nb)))"
proof -
  let ?cs = "map (\<lambda>row. (lat row, lon row)) hex_df"
  let ?out = "compute_hex_scores ap hex_df"
  let ?valid = "valid_rows 0 ?cs"
  have n2: "2 \<le> length ?valid" using assms(2) by (simp only: valid_count_hexes)
  have ci: "?cs ! i = (Some la, Some lo)" using assms(3,4,5) by simp
  from valid_rows_find[of i ?cs la lo] assms(3) ci obtain p where
    p: "p < length ?valid" and vp: "?valid ! p = (i, la, lo)" by auto
  define nb where "nb = smoothing_pool ap ?cs SMOOTH_K ! p"
  note P = smoothing_pool_props[OF assms(1) n2 p, of SMOOTH_K, folded nb_def]
  have fi: "fst (?valid ! p) = i" and si: "snd (?valid ! p) = (la, lo)" using vp by simp_all
  have 1: "length nb = min 20 (length (filter (\<lambda>row. lat row \<noteq> None \<and> lon row \<noteq> None) hex_df) - 1)"
    using P(2) n2 unfolding valid_count_hexes by (simp add: SMOOTH_K_def)
  have 2: "distinct nb" by (rule P(3))
  have 3: "i \<notin> set nb" using P(4) fi by simp
  have 4: "\<forall>j\<in>set nb. j < length hex_df \<and> lat (hex_df ! j) \<noteq> None \<and> lon (hex_df ! j) \<noteq> None"
  proof
    fix j assume "j \<in> set nb"
    with P(5) have a: "j < length ?cs" "fst (?cs ! j) \<noteq> None" "snd (?cs ! j) \<noteq> None" by blast+
    from a(1) have jl: "j < length hex_df" by simp
    with a(2,3) show "j < length hex_df \<and> lat (hex_df ! j) \<noteq> None \<and> lon (hex_df ! j) \<noteq> None"
      by simp
  qed
  have 5: "\<forall>j\<in>set nb. \<forall>r<length hex_df. \<forall>la1 lo1 la2 lo2.
           lat (hex_df ! j) = Some la1 \<and> lon (hex_df ! j) = Some lo1
           \<and> lat (hex_df ! r) = Some la2 \<and> lon (hex_df ! r) = Some lo2
           \<and> r \<noteq> i \<and> r \<notin> set nb \<longrightarrow>
           haversine_pair (la, lo) (la1, lo1) \<le> haversine_pair (la, lo) (la2, lo2)"
  proof (intro ballI allI impI)
    fix j r la1 lo1 la2 lo2
    assume j: "j \<in> set nb" and r: "r < length hex_df"
      and h: "lat (hex_df ! j) = Some la1 \<and> lon (hex_df ! j) = Some lo1
           \<and> lat (hex_df ! r) = Some la2 \<and> lon (hex_df ! r) = Some lo2
           \<and> r \<noteq> i \<and> r \<notin> set nb"
    have jl: "j < length hex_df" using 4 j by blast
    have cj: "?cs ! j = (Some la1, Some lo1)" using jl h by simp
    have cr: "?cs ! r = (Some la2, Some lo2)" using r h by simp
    from valid_rows_find[of j ?cs la1 lo1] jl cj obtain q where
      q: "q < length ?valid" "?valid ! q = (j, la1, lo1)" by auto
    from valid_rows_find[of r ?cs la2 lo2] r cr obtain r' where
      r': "r' < length ?valid" "?valid ! r' = (r, la2, lo2)" by auto
    have "r' \<noteq> p" using r'(2) vp h by auto
    with P(6)[rule_format, OF q(1) r'(1)] q(2) r'(2) j h
    show "haversine_pair (la, lo) (la1, lo1) \<le> haversine_pair (la, lo) (la2, lo2)"
      unfolding si by simp
  qed
  have lv: "length (map dc_score_hex ?out) = length ?cs" by (simp add: length_compute_hex_scores)
  have "dc_score_hex_smooth (?out ! i)
      = nadd (nmul (Some SMOOTH_BLEND) (map dc_score_hex ?out ! i))
          (nmul (Some (1 - SMOOTH_BLEND)) (nmean (map (\<lambda>j. map dc_score_hex ?out ! j) nb)))"
    unfolding smooth_nth[OF assms(3)] nb_def
    using knn_smooth_valid[OF assms(1) lv n2 p, of SMOOTH_K SMOOTH_BLEND] unfolding fi .
  moreover have "map (\<lambda>j. map dc_score_hex ?out ! j) nb = map (\<lambda>j. dc_score_hex (?out ! j)) nb"
    using 4 by (simp add: length_compute_hex_scores)
  moreover have "map dc_score_hex ?out ! i = dc_score_hex (?out ! i)"
    using assms(3) by (simp add: length_compute_hex_scores)
  ultimately have 6: "dc_score_hex_smooth (?out ! i)
         = nadd (nmul (Some (25 / 100)) (dc_score_hex (?out ! i)))
                (nmul (Some (75 / 100)) (nmean (map (\<lambda>j. dc_score_hex (?out ! j)) nb)))"
    by (simp add: SMOOTH_BLEND_def)
  show ?thesis
    using p vp nb_def[symmetric] 1 2 3 4 5 6 by blast
qed

theorem knn_smoothing_blend_example:
  "partition_ok argsort_partition
   \<and> 2 \<le> length (filter (\<lambda>row. lat row \<noteq> None \<and> lon row \<noteq> None) ex_merged)
   \<and> (0::nat) < length ex_merged \<and> lat (ex_merged ! 0) = Some 0 \<and> lon (ex_merged ! 0) = Some 0
   \<and> dc_score_hex (compute_hex_scores argsort_partition ex_merged ! 0) = Some (14 / 25)
   \<and> dc_score_hex (compute_hex_scores argsort_partition ex_merged ! 2) = Some (8 / 25)
   \<and> dc_score_hex_smooth (compute_hex_scores argsort_partition ex_merged ! 0) = Some (19 / 50)"
proof -
  let ?out = "compute_hex_scores argsort_partition ex_merged"
  have h: "2 \<le> length (filter (\<lambda>row. lat row \<noteq> None \<and> lon row \<noteq> None) ex_merged)"
    "(0::nat) < length ex_merged" "lat (ex_merged ! 0) = Some 0" "lon (ex_merged ! 0) = Some 0"
    unfolding ex_merged_facts by simp_all
  have dc: "\<And>j. j < 3 \<Longrightarrow> dc_score_hex (?out ! j) = [Some (14 / 25), Some (4 / 5), Some (8 / 25)] ! j"
  proof -
    fix j :: nat assume "j < 3"
    then have "dc_score_hex (?out ! j) = map dc_score_hex ?out ! j"
      by (simp add: length_compute_hex_scores ex_merged_facts)
    then show "dc_score_hex (?out ! j) = [Some (14 / 25), Some (4 / 5), Some (8 / 25)] ! j"
      unfolding ex_merged_dc .
  qed
  have d0: "dc_score_hex (?out ! 0) = Some (14 / 25)" using dc[of 0] by simp
  have d2: "dc_score_hex (?out ! 2) = Some (8 / 25)" using dc[of 2] by simp
  from knn_smoothing_blend[OF argsort_partition_ok h] obtain p nb where
    len: "length nb = min 20 (length (filter (\<lambda>row. lat row \<noteq> None \<and> lon row \<noteq> None) ex_merged) - 1)"
    and notin: "0 \<notin> set nb"
    and val: "\<forall>j\<in>set nb. j < length ex_merged \<and> lat (ex_merged ! j) \<noteq> None \<and> lon (ex_merged ! j) \<noteq> None"
    and sm: "dc_score_hex_smooth (?out ! 0)
         = nadd (nmul (Some (25 / 100)) (dc_score_hex (?out ! 0)))
                (nmul (Some (75 / 100)) (nmean (map (\<lambda>j. dc_score_hex (?out ! j)) nb)))"
    by blast
  from len have l1: "length nb = 1" unfolding ex_merged_facts(7) by simp
  then obtain j where nb: "nb = [j]" by (cases nb) auto
  from val nb have "j < length ex_merged" "lat (ex_merged ! j) \<noteq> None" by auto
  then have "j < 3" "lat (ex_merged ! j) \<noteq> None" unfolding ex_merged_facts(1) by blast+
  moreover from notin nb have "j \<noteq> 0" by simp
  ultimately have "j = 2"
    using ex_merged_facts(4) by (cases "j = 1") auto
  with nb have nb2: "nb = [2]" by simp
  have "dc_score_hex_smooth (?out ! 0) = Some (19 / 50)"
    unfolding sm nb2 by (simp add: d0 d2 nmean_def nsum_def nadd_def nmul_def ndiv_def)
  with argsort_partition_ok h d0 d2 show ?thesis by blast
qed

end
